(* ===== verification/Prelude.thy ===== *)
theory Prelude
  imports Main "HOL-Library.AList" "HOL-Library.Multiset" "HOL-Library.Signed_Division"
begin

text \<open>
  Shared vocabulary of the development.

  \<^item> Names of the model's types: clock readings and durations are nanosecond counts
    (\<open>time\<close>), sessions and threads are known by integers (\<open>sid\<close>, \<open>tid\<close>), and a
    \<open>std::shared_ptr\<close> is an address (\<open>addr\<close>) into an explicit store.
  \<^item> C++ integers are \<open>int\<close>. A narrowing conversion is written out with \<open>to_i32\<close> or
    \<open>to_i64\<close> (two's complement), and C++ division, which truncates towards zero, is
    \<open>sdiv\<close> of \<^theory_text>\<open>HOL-Library.Signed_Division\<close>.
  \<^item> A \<open>std::unordered_map\<close> is an association list with distinct keys. Its order stands
    for the iteration order the standard leaves open; results that must not depend on
    it are proved not to.
  \<^item> \<open>reach\<close> is the set of states a step relation can reach, and the locale
    \<open>invariant_of\<close> carries the one induction every invariant proof needs.
\<close>

section \<open>Names\<close>

type_synonym time = int
type_synonym sid = int
type_synonym tid = int
type_synonym addr = nat
type_synonym ('k, 'v) umap = "('k \<times> 'v) list"

named_theorems umap_simps \<open>look-up, update and erase of association lists\<close>
named_theorems cint_simps \<open>narrowing conversions of C++ integers\<close>

section \<open>C++ integers\<close>

definition to_signed :: "nat \<Rightarrow> int \<Rightarrow> int" where
  "to_signed n x = (x + 2 ^ (n - 1)) mod 2 ^ n - 2 ^ (n - 1)"

abbreviation to_i32 :: "int \<Rightarrow> int" where
  "to_i32 \<equiv> to_signed 32"

abbreviation to_i64 :: "int \<Rightarrow> int" where
  "to_i64 \<equiv> to_signed 64"

definition in_signed :: "nat \<Rightarrow> int \<Rightarrow> bool" where
  "in_signed n x \<longleftrightarrow> - (2 ^ (n - 1)) \<le> x \<and> x < 2 ^ (n - 1)"

section \<open>Association lists as unordered maps\<close>

abbreviation umap_wf :: "('k, 'v) umap \<Rightarrow> bool" where
  "umap_wf m \<equiv> distinct (map fst m)"

abbreviation umap_find :: "('k, 'v) umap \<Rightarrow> 'k \<Rightarrow> 'v option" where
  "umap_find m k \<equiv> map_of m k"

abbreviation umap_set :: "'k \<Rightarrow> 'v \<Rightarrow> ('k, 'v) umap \<Rightarrow> ('k, 'v) umap" where
  "umap_set k v m \<equiv> AList.update k v m"

abbreviation umap_erase :: "'k \<Rightarrow> ('k, 'v) umap \<Rightarrow> ('k, 'v) umap" where
  "umap_erase k m \<equiv> AList.delete k m"

section \<open>Reachable states\<close>

inductive reach :: "('s \<Rightarrow> bool) \<Rightarrow> ('s \<Rightarrow> 's \<Rightarrow> bool) \<Rightarrow> 's \<Rightarrow> bool"
  for init :: "'s \<Rightarrow> bool" and step :: "'s \<Rightarrow> 's \<Rightarrow> bool" where
  reach_init: "init s \<Longrightarrow> reach init step s"
| reach_step: "reach init step s \<Longrightarrow> step s t \<Longrightarrow> reach init step t"

section \<open>Lemmas\<close>

lemma reach_steps: "step\<^sup>*\<^sup>* s t \<Longrightarrow> reach init step s \<Longrightarrow> reach init step t"
  by (induction rule: rtranclp_induct) (auto intro: reach_step)

lemma to_signed_id [cint_simps]:
  assumes "in_signed n x" and "0 < n"
  shows "to_signed n x = x"
proof -
  have two: "(2::int) ^ n = 2 * 2 ^ (n - 1)"
    using \<open>0 < n\<close> by (cases n) simp_all
  have "(x + 2 ^ (n - 1)) mod 2 ^ n = x + 2 ^ (n - 1)"
    using assms two by (intro mod_pos_pos_trivial) (auto simp: in_signed_def)
  then show ?thesis by (simp add: to_signed_def)
qed

lemma to_signed_cong: "x mod 2 ^ n = y mod 2 ^ n \<Longrightarrow> to_signed n x = to_signed n y"
  unfolding to_signed_def by (metis mod_add_left_eq)

lemma to_signed_range:
  assumes "0 < n"
  shows "in_signed n (to_signed n x)"
proof -
  have two: "(2::int) ^ n = 2 * 2 ^ (n - 1)"
    using assms by (cases n) simp_all
  have "0 \<le> (x + 2 ^ (n - 1)) mod 2 ^ n" "(x + 2 ^ (n - 1)) mod 2 ^ n < (2::int) ^ n"
    by simp_all
  with two show ?thesis by (auto simp: to_signed_def in_signed_def)
qed

lemmas [umap_simps] =
  AList.update_conv' AList.delete_conv' AList.distinct_update AList.distinct_delete

declare map_of_eq_Some_iff [simp del] Some_eq_map_of_iff [simp del]

lemma umap_find_in_set: "umap_wf m \<Longrightarrow> umap_find m k = Some v \<longleftrightarrow> (k, v) \<in> set m"
  by (simp add: map_of_eq_Some_iff)

lemma umap_values:
  "umap_wf m \<Longrightarrow> snd ` set m = ran (umap_find m)"
  by (simp add: ran_distinct)

locale invariant_of =
  fixes init :: "'s \<Rightarrow> bool" and step :: "'s \<Rightarrow> 's \<Rightarrow> bool" and inv :: "'s \<Rightarrow> bool"
  assumes inv_init: "init s \<Longrightarrow> inv s"
    and inv_step: "inv s \<Longrightarrow> step s t \<Longrightarrow> inv t"
begin

lemma reach_inv: "reach init step s \<Longrightarrow> inv s"
  by (induction rule: reach.induct) (auto intro: inv_init inv_step)

end

end
