(* ===== verification/AdpfTypes.thy ===== *)
theory AdpfTypes
  imports Prelude
begin

text \<open>
  The enumerations and constants of \<^verbatim>\<open>power-libperfmgr/aidl/AdpfTypes.h\<close>: the kinds of
  votes a session can hold, their numeric identifiers, the names used in traces, and
  the bounds of a utilisation clamp.
\<close>

section \<open>Definitions\<close>

datatype AdpfErrorCode = ERR_OK | ERR_BAD_STATE | ERR_BAD_ARG

datatype AdpfVoteType =
    CPU_VOTE_DEFAULT
  | CPU_LOAD_UP
  | CPU_LOAD_RESET
  | CPU_LOAD_RESUME
  | VOTE_POWER_EFFICIENCY
  | GPU_LOAD_UP
  | GPU_LOAD_DOWN
  | GPU_LOAD_RESET
  | GPU_CAPACITY
  | VOTE_TYPE_SIZE

text \<open>The value of the enumerator, as \<open>static_cast\<close> to the underlying type gives it.\<close>

fun vote_id :: "AdpfVoteType \<Rightarrow> int" where
  "vote_id CPU_VOTE_DEFAULT = 0"
| "vote_id CPU_LOAD_UP = 1"
| "vote_id CPU_LOAD_RESET = 2"
| "vote_id CPU_LOAD_RESUME = 3"
| "vote_id VOTE_POWER_EFFICIENCY = 4"
| "vote_id GPU_LOAD_UP = 5"
| "vote_id GPU_LOAD_DOWN = 6"
| "vote_id GPU_LOAD_RESET = 7"
| "vote_id GPU_CAPACITY = 8"
| "vote_id VOTE_TYPE_SIZE = 9"

fun AdpfVoteTypeToStr :: "AdpfVoteType \<Rightarrow> string" where
  "AdpfVoteTypeToStr CPU_VOTE_DEFAULT = ''CPU_VOTE_DEFAULT''"
| "AdpfVoteTypeToStr CPU_LOAD_UP = ''CPU_LOAD_UP''"
| "AdpfVoteTypeToStr CPU_LOAD_RESET = ''CPU_LOAD_RESET''"
| "AdpfVoteTypeToStr CPU_LOAD_RESUME = ''CPU_LOAD_RESUME''"
| "AdpfVoteTypeToStr VOTE_POWER_EFFICIENCY = ''VOTE_POWER_EFFICIENCY''"
| "AdpfVoteTypeToStr GPU_LOAD_UP = ''GPU_LOAD_UP''"
| "AdpfVoteTypeToStr GPU_LOAD_DOWN = ''GPU_LOAD_DOWN''"
| "AdpfVoteTypeToStr GPU_LOAD_RESET = ''GPU_LOAD_RESET''"
| "AdpfVoteTypeToStr GPU_CAPACITY = ''GPU_CAPACITY''"
| "AdpfVoteTypeToStr VOTE_TYPE_SIZE = ''INVALID_VOTE''"

definition kUclampMin :: int where "kUclampMin = 0"

definition kUclampMax :: int where "kUclampMax = 1024"

lemmas uclamp_consts = kUclampMin_def kUclampMax_def

section \<open>Lemmas\<close>

lemma inj_vote_id: "inj vote_id"
proof (rule injI)
  fix a b assume "vote_id a = vote_id b"
  then show "a = b" by (cases a; cases b) simp_all
qed

lemma inj_AdpfVoteTypeToStr: "inj AdpfVoteTypeToStr"
proof (rule injI)
  fix a b assume "AdpfVoteTypeToStr a = AdpfVoteTypeToStr b"
  then show "a = b" by (cases a; cases b) simp_all
qed

end
