(* ===== verification/UClampVoter.thy ===== *)
theory UClampVoter
  imports AdpfTypes
begin

text \<open>
  \<^verbatim>\<open>power-libperfmgr/aidl/UClampVoter.{h,cpp}\<close>: the votes one hint session holds.

  A vote is a time interval with an on/off flag; a CPU vote carries a utilisation clamp
  range, a GPU vote a capacity. \<open>VoteRange\<close> is a record, and \<open>CpuVote\<close> and \<open>GpuVote\<close>
  extend it, as the classes derive from it. \<open>Votes\<close> keeps one table per kind; an
  identifier belongs to exactly one of them.

  The lemmas show that the two tables together behave as one finite map from vote
  identifiers to votes (\<open>Votes_abs\<close>), what every operation does to that map, and that
  the range and capacity computed from the votes in force do not depend on the order in
  which a table is iterated.
\<close>

section \<open>Definitions\<close>

subsection \<open>Votes\<close>

record UclampRange =
  uclampMin :: int
  uclampMax :: int

definition UclampRange_default :: UclampRange where
  "UclampRange_default = \<lparr>uclampMin = kUclampMin, uclampMax = kUclampMax\<rparr>"

record VoteRange =
  mActive :: bool
  mStartTime :: time
  mDurationNs :: time

record CpuVote = VoteRange +
  mUclampRange :: UclampRange

record GpuVote = VoteRange +
  mCapacity :: int

definition isTimeInRange :: "'a VoteRange_scheme \<Rightarrow> time \<Rightarrow> bool" where
  "isTimeInRange v t \<longleftrightarrow> mActive v \<and> mStartTime v \<le> t \<and> mStartTime v + mDurationNs v \<ge> t"

definition VoteRange_updateDuration ::
  "time \<Rightarrow> 'a VoteRange_scheme \<Rightarrow> 'a VoteRange_scheme" where
  "VoteRange_updateDuration durationNs v = v\<lparr>mDurationNs := durationNs\<rparr>"

definition VoteRange_setActive ::
  "bool \<Rightarrow> 'a VoteRange_scheme \<Rightarrow> 'a VoteRange_scheme" where
  "VoteRange_setActive active v = v\<lparr>mActive := active\<rparr>"

definition mkCpuVote :: "bool \<Rightarrow> time \<Rightarrow> time \<Rightarrow> int \<Rightarrow> int \<Rightarrow> CpuVote" where
  "mkCpuVote active startTime durationNs umin umax =
     \<lparr>mActive = active, mStartTime = startTime, mDurationNs = durationNs,
      mUclampRange = \<lparr>uclampMin = umin, uclampMax = umax\<rparr>\<rparr>"

definition mkGpuVote :: "bool \<Rightarrow> time \<Rightarrow> time \<Rightarrow> int \<Rightarrow> GpuVote" where
  "mkGpuVote active startTime durationNs capacity =
     \<lparr>mActive = active, mStartTime = startTime, mDurationNs = durationNs,
      mCapacity = capacity\<rparr>"

definition confine :: "UclampRange \<Rightarrow> CpuVote \<Rightarrow> time \<Rightarrow> UclampRange" where
  "confine r v t =
     (if \<not> isTimeInRange v t then r
      else \<lparr>uclampMin = max (uclampMin r) (uclampMin (mUclampRange v)),
            uclampMax = min (uclampMax r) (uclampMax (mUclampRange v))\<rparr>)"

subsection \<open>The collection of votes\<close>

record Votes =
  mCpuVotes :: "(int, CpuVote) umap"
  mGpuVotes :: "(int, GpuVote) umap"

definition Votes_init :: Votes where
  "Votes_init = \<lparr>mCpuVotes = [], mGpuVotes = []\<rparr>"

definition isGpuVote :: "int \<Rightarrow> bool" where
  "isGpuVote type_raw \<longleftrightarrow>
     type_raw = vote_id GPU_CAPACITY \<or> type_raw = vote_id GPU_LOAD_UP \<or>
     type_raw = vote_id GPU_LOAD_DOWN \<or> type_raw = vote_id GPU_LOAD_RESET"

definition Votes_addCpu :: "int \<Rightarrow> CpuVote \<Rightarrow> Votes \<Rightarrow> Votes" where
  "Votes_addCpu i vote vs =
     (if \<not> isGpuVote i then vs\<lparr>mCpuVotes := umap_set i vote (mCpuVotes vs)\<rparr> else vs)"

definition Votes_addGpu :: "int \<Rightarrow> GpuVote \<Rightarrow> Votes \<Rightarrow> Votes" where
  "Votes_addGpu i vote vs =
     (if isGpuVote i then vs\<lparr>mGpuVotes := umap_set i vote (mGpuVotes vs)\<rparr> else vs)"

definition gpu_capacity_hints :: "AdpfVoteType list" where
  "gpu_capacity_hints = [GPU_CAPACITY, GPU_LOAD_UP]"

text \<open>\<open>res = res.value_or(Cycles(0)) + capacity\<close>, for each of the two hints in turn.\<close>

definition getGpuCapacityRequest :: "Votes \<Rightarrow> time \<Rightarrow> int option" where
  "getGpuCapacityRequest vs t =
     fold (\<lambda>hint res.
       case umap_find (mGpuVotes vs) (vote_id hint) of
         None \<Rightarrow> res
       | Some v \<Rightarrow>
           if isTimeInRange v t
           then Some ((case res of None \<Rightarrow> 0 | Some c \<Rightarrow> c) + mCapacity v) else res)
     gpu_capacity_hints None"

definition Votes_updateDuration :: "int \<Rightarrow> time \<Rightarrow> Votes \<Rightarrow> Votes" where
  "Votes_updateDuration voteId durationNs vs =
     (if isGpuVote voteId then
        (case umap_find (mGpuVotes vs) voteId of
           None \<Rightarrow> vs
         | Some v \<Rightarrow> vs\<lparr>mGpuVotes :=
             umap_set voteId (VoteRange_updateDuration durationNs v) (mGpuVotes vs)\<rparr>)
      else
        (case umap_find (mCpuVotes vs) voteId of
           None \<Rightarrow> vs
         | Some v \<Rightarrow> vs\<lparr>mCpuVotes :=
             umap_set voteId (VoteRange_updateDuration durationNs v) (mCpuVotes vs)\<rparr>))"

definition getUclampRange :: "Votes \<Rightarrow> UclampRange \<Rightarrow> time \<Rightarrow> UclampRange" where
  "getUclampRange vs r t = fold (\<lambda>(i, v) r. confine r v t) (mCpuVotes vs) r"

definition anyTimedOut :: "Votes \<Rightarrow> time \<Rightarrow> bool" where
  "anyTimedOut vs t \<longleftrightarrow>
     list_ex (\<lambda>(i, v). \<not> isTimeInRange v t) (mGpuVotes vs) \<or>
     list_ex (\<lambda>(i, v). \<not> isTimeInRange v t) (mCpuVotes vs)"

definition allTimedOut :: "Votes \<Rightarrow> time \<Rightarrow> bool" where
  "allTimedOut vs t \<longleftrightarrow>
     \<not> list_ex (\<lambda>(i, v). isTimeInRange v t) (mGpuVotes vs) \<and>
     \<not> list_ex (\<lambda>(i, v). isTimeInRange v t) (mCpuVotes vs)"

definition Votes_remove :: "int \<Rightarrow> Votes \<Rightarrow> bool \<times> Votes" where
  "Votes_remove voteId vs =
     (if isGpuVote voteId then
        (case umap_find (mGpuVotes vs) voteId of
           None \<Rightarrow> (False, vs)
         | Some _ \<Rightarrow> (True, vs\<lparr>mGpuVotes := umap_erase voteId (mGpuVotes vs)\<rparr>))
      else
        (case umap_find (mCpuVotes vs) voteId of
           None \<Rightarrow> (False, vs)
         | Some _ \<Rightarrow> (True, vs\<lparr>mCpuVotes := umap_erase voteId (mCpuVotes vs)\<rparr>)))"

definition setUseVote :: "int \<Rightarrow> bool \<Rightarrow> Votes \<Rightarrow> bool \<times> Votes" where
  "setUseVote voteId active vs =
     (if isGpuVote voteId then
        (case umap_find (mGpuVotes vs) voteId of
           None \<Rightarrow> (False, vs)
         | Some v \<Rightarrow> (True, vs\<lparr>mGpuVotes :=
             umap_set voteId (VoteRange_setActive active v) (mGpuVotes vs)\<rparr>))
      else
        (case umap_find (mCpuVotes vs) voteId of
           None \<Rightarrow> (False, vs)
         | Some v \<Rightarrow> (True, vs\<lparr>mCpuVotes :=
             umap_set voteId (VoteRange_setActive active v) (mCpuVotes vs)\<rparr>)))"

definition Votes_size :: "Votes \<Rightarrow> nat" where
  "Votes_size vs = length (mCpuVotes vs) + length (mGpuVotes vs)"

definition voteIsActive :: "Votes \<Rightarrow> int \<Rightarrow> bool" where
  "voteIsActive vs voteId =
     (if isGpuVote voteId then
        (case umap_find (mGpuVotes vs) voteId of None \<Rightarrow> False | Some v \<Rightarrow> mActive v)
      else
        (case umap_find (mCpuVotes vs) voteId of None \<Rightarrow> False | Some v \<Rightarrow> mActive v))"

text \<open>A default-constructed \<open>time_point\<close> is the clock's epoch, 0.\<close>

definition voteTimeout :: "Votes \<Rightarrow> int \<Rightarrow> time" where
  "voteTimeout vs voteId =
     (if isGpuVote voteId then
        (case umap_find (mGpuVotes vs) voteId of
           None \<Rightarrow> 0 | Some v \<Rightarrow> mStartTime v + mDurationNs v)
      else
        (case umap_find (mCpuVotes vs) voteId of
           None \<Rightarrow> 0 | Some v \<Rightarrow> mStartTime v + mDurationNs v))"

subsection \<open>Specification: one map from identifiers to votes\<close>

datatype vote = VCpu CpuVote | VGpu GpuVote

fun vote_set_duration :: "time \<Rightarrow> vote \<Rightarrow> vote" where
  "vote_set_duration d (VCpu v) = VCpu (v\<lparr>mDurationNs := d\<rparr>)"
| "vote_set_duration d (VGpu v) = VGpu (v\<lparr>mDurationNs := d\<rparr>)"

fun vote_set_active :: "bool \<Rightarrow> vote \<Rightarrow> vote" where
  "vote_set_active b (VCpu v) = VCpu (v\<lparr>mActive := b\<rparr>)"
| "vote_set_active b (VGpu v) = VGpu (v\<lparr>mActive := b\<rparr>)"

fun vote_active :: "vote \<Rightarrow> bool" where
  "vote_active (VCpu v) = mActive v"
| "vote_active (VGpu v) = mActive v"

fun vote_deadline :: "vote \<Rightarrow> time" where
  "vote_deadline (VCpu v) = mStartTime v + mDurationNs v"
| "vote_deadline (VGpu v) = mStartTime v + mDurationNs v"

fun vote_in_force :: "time \<Rightarrow> vote \<Rightarrow> bool" where
  "vote_in_force t (VCpu v) = isTimeInRange v t"
| "vote_in_force t (VGpu v) = isTimeInRange v t"

definition Votes_abs :: "Votes \<Rightarrow> int \<rightharpoonup> vote" where
  "Votes_abs vs i =
     (if isGpuVote i then map_option VGpu (umap_find (mGpuVotes vs) i)
      else map_option VCpu (umap_find (mCpuVotes vs) i))"

definition Votes_wf :: "Votes \<Rightarrow> bool" where
  "Votes_wf vs \<longleftrightarrow>
     umap_wf (mCpuVotes vs) \<and> umap_wf (mGpuVotes vs) \<and>
     list_all (\<lambda>i. \<not> isGpuVote i) (map fst (mCpuVotes vs)) \<and>
     list_all isGpuVote (map fst (mGpuVotes vs))"

text \<open>A small collection the witnesses evaluate.\<close>

definition sample_votes :: Votes where
  "sample_votes =
     Votes_addGpu (vote_id GPU_CAPACITY) (mkGpuVote True 0 100 7)
       (Votes_addCpu (vote_id CPU_LOAD_UP) (mkCpuVote True 5 20 480 900)
         (Votes_addCpu (vote_id CPU_VOTE_DEFAULT) (mkCpuVote True 0 50 100 1024) Votes_init))"

definition clamps_in_force ::
  "(UclampRange \<Rightarrow> int) \<Rightarrow> (int, CpuVote) umap \<Rightarrow> time \<Rightarrow> int set" where
  "clamps_in_force f m t = (\<lambda>(i, v). f (mUclampRange v)) ` {(i, v) \<in> set m. isTimeInRange v t}"

text \<open>The part of an optional capacity that a vote in force contributes.\<close>

definition gpu_share :: "Votes \<Rightarrow> AdpfVoteType \<Rightarrow> time \<Rightarrow> int option" where
  "gpu_share vs x t =
     (case Votes_abs vs (vote_id x) of
        Some (VGpu v) \<Rightarrow> if isTimeInRange v t then Some (mCapacity v) else None
      | _ \<Rightarrow> None)"

section \<open>The tables as one map\<close>

lemma isGpuVote_ids [simp]:
  "isGpuVote (vote_id x) \<longleftrightarrow> x \<in> {GPU_CAPACITY, GPU_LOAD_UP, GPU_LOAD_DOWN, GPU_LOAD_RESET}"
  by (cases x) (auto simp: isGpuVote_def)

lemma Votes_abs_init [simp]: "Votes_abs Votes_init = Map.empty"
  by (auto simp: Votes_abs_def Votes_init_def)

lemma Votes_abs_addCpu:
  "Votes_abs (Votes_addCpu i v vs) =
     (if isGpuVote i then Votes_abs vs else (Votes_abs vs)(i \<mapsto> VCpu v))"
  by (auto simp: fun_eq_iff Votes_abs_def Votes_addCpu_def umap_simps)

lemma Votes_abs_addGpu:
  "Votes_abs (Votes_addGpu i v vs) =
     (if isGpuVote i then (Votes_abs vs)(i \<mapsto> VGpu v) else Votes_abs vs)"
  by (auto simp: fun_eq_iff Votes_abs_def Votes_addGpu_def umap_simps)

lemma Votes_abs_updateDuration:
  "Votes_abs (Votes_updateDuration i d vs) =
     (Votes_abs vs)(i := map_option (vote_set_duration d) (Votes_abs vs i))"
  by (auto simp: fun_eq_iff Votes_abs_def Votes_updateDuration_def
      VoteRange_updateDuration_def umap_simps split: option.splits)

lemma Votes_abs_remove:
  "Votes_abs (snd (Votes_remove i vs)) = (Votes_abs vs)(i := None)"
  by (auto simp: fun_eq_iff Votes_abs_def Votes_remove_def umap_simps split: option.splits)

lemma Votes_remove_result: "fst (Votes_remove i vs) \<longleftrightarrow> i \<in> dom (Votes_abs vs)"
  by (cases "isGpuVote i") (auto simp: Votes_abs_def Votes_remove_def split: option.splits)

lemma Votes_abs_setUseVote:
  "Votes_abs (snd (setUseVote i b vs)) =
     (Votes_abs vs)(i := map_option (vote_set_active b) (Votes_abs vs i))"
  by (auto simp: fun_eq_iff Votes_abs_def setUseVote_def VoteRange_setActive_def
      umap_simps split: option.splits)

lemma setUseVote_result: "fst (setUseVote i b vs) \<longleftrightarrow> i \<in> dom (Votes_abs vs)"
  by (cases "isGpuVote i") (auto simp: Votes_abs_def setUseVote_def split: option.splits)

lemma voteIsActive_abs:
  "voteIsActive vs i \<longleftrightarrow> (\<exists>v. Votes_abs vs i = Some v \<and> vote_active v)"
  by (auto simp: voteIsActive_def Votes_abs_def split: option.splits)

lemma voteTimeout_abs:
  "voteTimeout vs i = (case Votes_abs vs i of None \<Rightarrow> 0 | Some v \<Rightarrow> vote_deadline v)"
  by (auto simp: voteTimeout_def Votes_abs_def split: option.splits)

lemmas Votes_abs_simps =
  Votes_abs_addCpu Votes_abs_addGpu Votes_abs_updateDuration Votes_abs_remove
  Votes_abs_setUseVote

section \<open>The representation invariant\<close>

lemma Votes_wf_init [simp]: "Votes_wf Votes_init"
  by (simp add: Votes_wf_def Votes_init_def)

lemma Votes_wf_iff:
  "Votes_wf vs \<longleftrightarrow>
     umap_wf (mCpuVotes vs) \<and> umap_wf (mGpuVotes vs) \<and>
     (\<forall>i. umap_find (mCpuVotes vs) i \<noteq> None \<longrightarrow> \<not> isGpuVote i) \<and>
     (\<forall>i. umap_find (mGpuVotes vs) i \<noteq> None \<longrightarrow> isGpuVote i)"
  by (auto simp: Votes_wf_def list_all_iff map_of_eq_None_iff)

lemma Votes_wf_addCpu: "Votes_wf vs \<Longrightarrow> Votes_wf (Votes_addCpu i v vs)"
  by (auto simp: Votes_wf_iff Votes_addCpu_def umap_simps)

lemma Votes_wf_addGpu: "Votes_wf vs \<Longrightarrow> Votes_wf (Votes_addGpu i v vs)"
  by (auto simp: Votes_wf_iff Votes_addGpu_def umap_simps)

lemma Votes_wf_updateDuration: "Votes_wf vs \<Longrightarrow> Votes_wf (Votes_updateDuration i d vs)"
  by (auto simp: Votes_wf_iff Votes_updateDuration_def umap_simps split: option.splits)

lemma Votes_wf_remove: "Votes_wf vs \<Longrightarrow> Votes_wf (snd (Votes_remove i vs))"
  by (auto simp: Votes_wf_iff Votes_remove_def umap_simps split: option.splits)

lemma Votes_wf_setUseVote: "Votes_wf vs \<Longrightarrow> Votes_wf (snd (setUseVote i b vs))"
  by (auto simp: Votes_wf_iff setUseVote_def umap_simps split: option.splits)

lemmas Votes_wf_ops =
  Votes_wf_addCpu Votes_wf_addGpu Votes_wf_updateDuration Votes_wf_remove Votes_wf_setUseVote

section \<open>Ranges and capacities\<close>

lemma Votes_abs_cpu:
  assumes "Votes_wf vs"
  shows "Votes_abs vs i = Some (VCpu v) \<longleftrightarrow> (i, v) \<in> set (mCpuVotes vs)"
  using assms umap_find_in_set [of "mCpuVotes vs" i v]
  by (auto simp: Votes_abs_def Votes_wf_iff)

lemma Votes_abs_gpu:
  assumes "Votes_wf vs"
  shows "Votes_abs vs i = Some (VGpu v) \<longleftrightarrow> (i, v) \<in> set (mGpuVotes vs)"
  using assms umap_find_in_set [of "mGpuVotes vs" i v]
  by (auto simp: Votes_abs_def Votes_wf_iff)

lemma Max_insert_max: "finite S \<Longrightarrow> Max (insert (max a b) S) = Max (insert a (insert b S))"
  for a b :: "'a :: linorder"
  by (cases "S = {}") (simp_all add: max.assoc)

lemma Min_insert_min: "finite S \<Longrightarrow> Min (insert (min a b) S) = Min (insert a (insert b S))"
  for a b :: "'a :: linorder"
  by (cases "S = {}") (simp_all add: min.assoc)

lemma finite_clamps_in_force [simp]: "finite (clamps_in_force f m t)"
proof -
  have "finite {(i, v) \<in> set m. isTimeInRange v t}"
    by (rule finite_subset [of _ "set m"]) auto
  then show ?thesis by (simp add: clamps_in_force_def)
qed

lemma clamps_in_force_Nil [simp]: "clamps_in_force f [] t = {}"
  by (simp add: clamps_in_force_def)

lemma clamps_in_force_Cons [simp]:
  "clamps_in_force f ((i, v) # m) t =
     (if isTimeInRange v t then insert (f (mUclampRange v)) (clamps_in_force f m t)
      else clamps_in_force f m t)"
  by (auto simp: clamps_in_force_def)

lemma fold_confine:
  "uclampMin (fold (\<lambda>(i, v) r. confine r v t) m r) =
     Max (insert (uclampMin r) (clamps_in_force uclampMin m t))"
  "uclampMax (fold (\<lambda>(i, v) r. confine r v t) m r) =
     Min (insert (uclampMax r) (clamps_in_force uclampMax m t))"
  by (induction m arbitrary: r)
    (auto simp: confine_def Max_insert_max Min_insert_min insert_commute simp del: Max_insert Min_insert)

lemma clamps_in_force_abs:
  assumes "Votes_wf vs"
  shows "clamps_in_force f (mCpuVotes vs) t =
    {f (mUclampRange v) |i v. Votes_abs vs i = Some (VCpu v) \<and> isTimeInRange v t}"
  by (force simp: clamps_in_force_def Votes_abs_cpu [OF assms])

lemma in_force_abs:
  assumes "Votes_wf vs"
  shows "(\<exists>i v. Votes_abs vs i = Some v \<and> vote_in_force t v) \<longleftrightarrow> \<not> allTimedOut vs t"
proof -
  have "(\<exists>i v. Votes_abs vs i = Some v \<and> vote_in_force t v) \<longleftrightarrow>
      (\<exists>i v. (i, v) \<in> set (mCpuVotes vs) \<and> isTimeInRange v t) \<or>
      (\<exists>i v. (i, v) \<in> set (mGpuVotes vs) \<and> isTimeInRange v t)"
    by (metis Votes_abs_cpu [OF assms] Votes_abs_gpu [OF assms] vote.exhaust vote_in_force.simps)
  then show ?thesis by (auto simp: allTimedOut_def list_ex_iff)
qed

lemma getUclampRange_idle: "allTimedOut vs t \<Longrightarrow> getUclampRange vs r t = r"
proof -
  have "fold (\<lambda>(i, v) r. confine r v t) m r = r"
    if "\<not> list_ex (\<lambda>(i, v). isTimeInRange v t) m" for m :: "(int, CpuVote) umap"
    using that by (induction m) (auto simp: confine_def)
  then show "allTimedOut vs t \<Longrightarrow> getUclampRange vs r t = r"
    by (simp add: allTimedOut_def getUclampRange_def)
qed

lemma getUclampRange_bounds:
  "uclampMin r \<le> uclampMin (getUclampRange vs r t)"
  "uclampMax (getUclampRange vs r t) \<le> uclampMax r"
  by (simp_all add: getUclampRange_def fold_confine)

lemma getGpuCapacityRequest_shares:
  "getGpuCapacityRequest vs t =
     (case (gpu_share vs GPU_CAPACITY t, gpu_share vs GPU_LOAD_UP t) of
        (None, None) \<Rightarrow> None
      | (Some a, None) \<Rightarrow> Some a
      | (None, Some b) \<Rightarrow> Some b
      | (Some a, Some b) \<Rightarrow> Some (a + b))"
proof -
  have share: "gpu_share vs x t =
      (case umap_find (mGpuVotes vs) (vote_id x) of
         None \<Rightarrow> None | Some v \<Rightarrow> if isTimeInRange v t then Some (mCapacity v) else None)"
    if "x \<in> {GPU_CAPACITY, GPU_LOAD_UP}" for x
    using that by (auto simp: gpu_share_def Votes_abs_def split: option.splits)
  show ?thesis
    unfolding getGpuCapacityRequest_def gpu_capacity_hints_def
    by (auto simp: share split: option.splits)
qed

section \<open>The contract a session manager relies on\<close>

text \<open>
  What the timeout protocol needs of a collection of votes: storing a vote under an
  identifier the store owns replaces exactly that vote's flag and deadline, and
  switching a vote off changes nothing else.
\<close>

locale vote_store =
  fixes owns :: "int \<Rightarrow> bool"
    and put :: "int \<Rightarrow> 'v \<Rightarrow> 's \<Rightarrow> 's"
    and disable :: "int \<Rightarrow> 's \<Rightarrow> 's"
    and active :: "'s \<Rightarrow> int \<Rightarrow> bool"
    and timeout :: "'s \<Rightarrow> int \<Rightarrow> time"
    and flag :: "'v \<Rightarrow> bool"
    and deadline :: "'v \<Rightarrow> time"
  assumes active_put: "owns i \<Longrightarrow> active (put i v s) j = (if j = i then flag v else active s j)"
    and timeout_put: "owns i \<Longrightarrow> timeout (put i v s) j = (if j = i then deadline v else timeout s j)"
    and active_disable: "active (disable i s) j \<longleftrightarrow> j \<noteq> i \<and> active s j"
    and timeout_disable: "timeout (disable i s) j = timeout s j"
begin

lemma active_disable_all: "active (fold disable is s) j \<longleftrightarrow> j \<notin> set is \<and> active s j"
  by (induction "is" arbitrary: s) (auto simp: active_disable)

lemma timeout_disable_all: "timeout (fold disable is s) j = timeout s j"
  by (induction "is" arbitrary: s) (auto simp: timeout_disable)

lemma put_then_disable: "owns i \<Longrightarrow> \<not> active (disable i (put i v s)) i"
  by (simp add: active_disable)

end

lemma vote_active_set_active [simp]: "vote_active (vote_set_active b v) = b"
  by (cases v) simp_all

lemma vote_deadline_set_active [simp]: "vote_deadline (vote_set_active b v) = vote_deadline v"
  by (cases v) simp_all

interpretation cpu_votes: vote_store
  "\<lambda>i. \<not> isGpuVote i" Votes_addCpu "\<lambda>i vs. snd (setUseVote i False vs)" voteIsActive voteTimeout
  mActive "\<lambda>v. mStartTime v + mDurationNs v"
  by unfold_locales
    (auto simp: voteIsActive_abs voteTimeout_abs Votes_abs_addCpu Votes_abs_setUseVote
      split: option.splits)

interpretation gpu_votes: vote_store
  isGpuVote Votes_addGpu "\<lambda>i vs. snd (setUseVote i False vs)" voteIsActive voteTimeout
  mActive "\<lambda>v. mStartTime v + mDurationNs v"
  by unfold_locales
    (auto simp: voteIsActive_abs voteTimeout_abs Votes_abs_addGpu Votes_abs_setUseVote
      split: option.splits)

section \<open>Properties\<close>


text \<open>
  Every operation keeps the representation invariant of \<open>Votes\<close>: keys are distinct,
  the CPU table holds no GPU identifier and the GPU table holds nothing else.
\<close>
theorem Votes_wf_preserved:
  assumes "Votes_wf vs"
  shows "Votes_wf (Votes_addCpu i c vs) \<and> Votes_wf (Votes_addGpu i g vs)
    \<and> Votes_wf (Votes_updateDuration i d vs) \<and> Votes_wf (snd (Votes_remove i vs))
    \<and> Votes_wf (snd (setUseVote i b vs))"
  using assms by (simp add: Votes_wf_ops)

theorem Votes_wf_preserved_witness:
  "Votes_wf sample_votes \<and> Votes_wf (snd (Votes_remove 0 sample_votes))"
proof -
  have wf: "Votes_wf sample_votes"
    by (simp add: sample_votes_def Votes_wf_ops)
  show ?thesis using wf Votes_wf_preserved [OF wf, of 0] by blast
qed

text \<open>
  C30: \<open>getUclampRange\<close> raises the lower clamp to the largest lower clamp of the CPU votes
  in force, and lowers the upper clamp to the smallest upper clamp of those votes. The
  result is stated over the map of votes, so it does not depend on the iteration order of
  the table.
\<close>
theorem getUclampRange_extremum:
  assumes "Votes_wf vs"
  shows "uclampMin (getUclampRange vs r t) =
      Max (insert (uclampMin r)
        {uclampMin (mUclampRange v) |i v. Votes_abs vs i = Some (VCpu v) \<and> isTimeInRange v t})
    \<and> uclampMax (getUclampRange vs r t) =
      Min (insert (uclampMax r)
        {uclampMax (mUclampRange v) |i v. Votes_abs vs i = Some (VCpu v) \<and> isTimeInRange v t})"
  by (simp add: getUclampRange_def fold_confine clamps_in_force_abs [OF assms])

theorem getUclampRange_extremum_witness:
  "Votes_wf sample_votes
   \<and> getUclampRange sample_votes UclampRange_default 10 = \<lparr>uclampMin = 480, uclampMax = 900\<rparr>
   \<and> Max (insert 0 {uclampMin (mUclampRange v) |i v.
        Votes_abs sample_votes i = Some (VCpu v) \<and> isTimeInRange v 10}) = 480"
proof -
  have wf: "Votes_wf sample_votes"
    by (simp add: sample_votes_def Votes_wf_ops)
  have range: "getUclampRange sample_votes UclampRange_default 10 =
      \<lparr>uclampMin = 480, uclampMax = 900\<rparr>"
    by code_simp
  show ?thesis
    using wf range getUclampRange_extremum [OF wf, of UclampRange_default 10]
    by (simp add: UclampRange_default_def uclamp_consts)
qed

text \<open>
  C31: \<open>allTimedOut\<close> holds exactly when no vote of either kind is in force, and then the
  collection has no effect: the clamp range is returned unchanged and no GPU capacity is
  requested.
\<close>
theorem allTimedOut_no_effect:
  assumes "Votes_wf vs"
  shows "(allTimedOut vs t \<longleftrightarrow> (\<forall>i v. Votes_abs vs i = Some v \<longrightarrow> \<not> vote_in_force t v))
    \<and> (allTimedOut vs t \<longrightarrow>
         getUclampRange vs r t = r \<and> getGpuCapacityRequest vs t = None)"
proof (intro conjI impI)
  show "allTimedOut vs t \<longleftrightarrow> (\<forall>i v. Votes_abs vs i = Some v \<longrightarrow> \<not> vote_in_force t v)"
    using in_force_abs [OF assms, of t] by blast
next
  assume "allTimedOut vs t"
  then show "getUclampRange vs r t = r" by (rule getUclampRange_idle)
next
  assume idle: "allTimedOut vs t"
  have "gpu_share vs x t = None" for x
    using in_force_abs [OF assms, of t] idle
    by (fastforce simp: gpu_share_def split: option.splits vote.splits)
  then show "getGpuCapacityRequest vs t = None"
    by (simp add: getGpuCapacityRequest_shares)
qed

theorem allTimedOut_no_effect_witness:
  "Votes_wf sample_votes \<and> allTimedOut sample_votes 1000
   \<and> getGpuCapacityRequest sample_votes 1000 = None"
proof -
  have wf: "Votes_wf sample_votes"
    by (simp add: sample_votes_def Votes_wf_ops)
  moreover have "allTimedOut sample_votes 1000"
    by code_simp
  ultimately show ?thesis
    using allTimedOut_no_effect [OF wf, of 1000] by blast
qed

end
