(* ===== verification/SessionTaskMap.thy ===== *)
theory SessionTaskMap
  imports UClampVoter
begin

text \<open>
  \<^verbatim>\<open>power-libperfmgr/aidl/SessionTaskMap.{h,cpp}\<close> and \<^verbatim>\<open>SessionValueEntry.h\<close>: which sessions
  exist, what each holds, and which threads each is linked to.

  The class keeps two maps that must agree: \<open>mSessions\<close> from session to its value and
  linked threads, \<open>mTasks\<close> from thread to the values of the sessions linked to it. Both
  hold \<open>shared_ptr\<close>s to the same \<open>SessionValueEntry\<close> objects, and the callers write
  through those pointers, so the model keeps an explicit store: \<open>entryStore\<close> and
  \<open>votesStore\<close> give the object at an address, \<open>nextAddr\<close> is the next free one. A
  \<open>shared_ptr\<close> never dangles, so the stores are total functions.

  \<open>STM_wf\<close> says that the two maps agree, with multiplicities (a thread may be listed
  twice). \<open>STM_abs\<close> is the abstract map the class promises; every operation is shown to
  be an operation on it. The locale \<open>session_map\<close> states that contract for the session
  manager.
\<close>

section \<open>Definitions\<close>

subsection \<open>State\<close>

record SessionValueEntry =
  sessionId :: sid
  tgid :: int
  uid :: int
  idString :: string
  isActive :: bool
  isAppSession :: bool
  lastUpdatedTime :: time
  votes :: addr
  isPowerEfficient :: bool

record ValEntry =
  val :: addr
  linkedTasks :: "tid list"

record SessionTaskMap =
  mSessions :: "(sid, ValEntry) umap"
  mTasks :: "(tid, addr list) umap"
  entryStore :: "addr \<Rightarrow> SessionValueEntry"
  votesStore :: "addr \<Rightarrow> Votes"
  nextAddr :: addr

subsection \<open>Operations\<close>

text \<open>\<open>mTasks[taskId].push_back(sessValPtr)\<close>: indexing creates the vector if needed.\<close>

definition task_push :: "addr \<Rightarrow> tid \<Rightarrow> (tid, addr list) umap \<Rightarrow> (tid, addr list) umap" where
  "task_push p t ts =
     umap_set t ((case umap_find ts t of None \<Rightarrow> [] | Some ps \<Rightarrow> ps) @ [p]) ts"

definition STM_add ::
  "sid \<Rightarrow> SessionValueEntry \<Rightarrow> tid list \<Rightarrow> SessionTaskMap \<Rightarrow> bool \<times> SessionTaskMap" where
  "STM_add s sv taskIds m =
     (if umap_find (mSessions m) s \<noteq> None then (False, m)
      else
        let p = nextAddr m in
        (True, m\<lparr>entryStore := (entryStore m)(p := sv\<lparr>sessionId := s\<rparr>),
                nextAddr := Suc p,
                mSessions := umap_set s \<lparr>val = p, linkedTasks = taskIds\<rparr> (mSessions m),
                mTasks := fold (task_push p) taskIds (mTasks m)\<rparr>))"

definition STM_findSession :: "sid \<Rightarrow> SessionTaskMap \<Rightarrow> addr option" where
  "STM_findSession s m = map_option val (umap_find (mSessions m) s)"

definition STM_addVote ::
  "sid \<Rightarrow> int \<Rightarrow> int \<Rightarrow> int \<Rightarrow> time \<Rightarrow> time \<Rightarrow> SessionTaskMap \<Rightarrow> SessionTaskMap" where
  "STM_addVote s voteId umin umax startTime durationNs m =
     (case umap_find (mSessions m) s of
        None \<Rightarrow> m
      | Some ve \<Rightarrow>
          let q = votes (entryStore m (val ve)) in
          m\<lparr>votesStore := (votesStore m)(q :=
              Votes_addCpu voteId (mkCpuVote True startTime durationNs umin umax)
                (votesStore m q))\<rparr>)"

definition STM_addGpuVote ::
  "sid \<Rightarrow> int \<Rightarrow> int \<Rightarrow> time \<Rightarrow> time \<Rightarrow> SessionTaskMap \<Rightarrow> SessionTaskMap" where
  "STM_addGpuVote s voteId capacity startTime durationNs m =
     (case umap_find (mSessions m) s of
        None \<Rightarrow> m
      | Some ve \<Rightarrow>
          let q = votes (entryStore m (val ve)) in
          m\<lparr>votesStore := (votesStore m)(q :=
              Votes_addGpu voteId (mkGpuVote True startTime durationNs capacity)
                (votesStore m q))\<rparr>)"

text \<open>
  One session of the loop in \<open>getTaskVoteRange\<close>. The code dereferences the optional
  \<open>uclampMaxEfficientOffset\<close> without testing it, so the model takes the value that
  dereference yields.
\<close>

definition session_confine ::
  "SessionTaskMap \<Rightarrow> time \<Rightarrow> int option \<Rightarrow> int \<Rightarrow> addr \<Rightarrow> UclampRange \<Rightarrow> UclampRange" where
  "session_confine m timeNow effBase effOffset p r =
     (let s = entryStore m p; vs = votesStore m (votes s) in
      if \<not> isActive s then r
      else
        let r1 = getUclampRange vs r timeNow in
        case effBase of
          Some base \<Rightarrow>
            if isPowerEfficient s then
              r1\<lparr>uclampMax := min (uclampMax r1)
                  (if allTimedOut vs timeNow then base else uclampMin r1 + effOffset)\<rparr>
            else r1
        | None \<Rightarrow> r1)"

definition STM_getTaskVoteRange ::
  "tid \<Rightarrow> time \<Rightarrow> UclampRange \<Rightarrow> int option \<Rightarrow> int \<Rightarrow> SessionTaskMap \<Rightarrow> UclampRange" where
  "STM_getTaskVoteRange taskId timeNow rng effBase effOffset m =
     (case umap_find (mTasks m) taskId of
        None \<Rightarrow> UclampRange_default
      | Some ps \<Rightarrow> fold (session_confine m timeNow effBase effOffset) ps rng)"

definition STM_getSessionsGpuCapacity :: "time \<Rightarrow> SessionTaskMap \<Rightarrow> int" where
  "STM_getSessionsGpuCapacity t m =
     fold (\<lambda>(s, ve) mx. max mx
         (case getGpuCapacityRequest (votesStore m (votes (entryStore m (val ve)))) t of
            None \<Rightarrow> 0 | Some c \<Rightarrow> c))
       (mSessions m) 0"

definition STM_getSessionIds :: "tid \<Rightarrow> SessionTaskMap \<Rightarrow> sid list" where
  "STM_getSessionIds taskId m =
     (case umap_find (mTasks m) taskId of
        None \<Rightarrow> []
      | Some ps \<Rightarrow> map (\<lambda>p. sessionId (entryStore m p)) ps)"

definition STM_getTaskIds :: "sid \<Rightarrow> SessionTaskMap \<Rightarrow> tid list" where
  "STM_getTaskIds s m =
     (case umap_find (mSessions m) s of None \<Rightarrow> [] | Some ve \<Rightarrow> linkedTasks ve)"

definition STM_isAnyAppSessionActive :: "time \<Rightarrow> SessionTaskMap \<Rightarrow> bool" where
  "STM_isAnyAppSessionActive t m \<longleftrightarrow>
     list_ex (\<lambda>(s, ve).
         let e = entryStore m (val ve) in
         isAppSession e \<and> isActive e \<and> \<not> allTimedOut (votesStore m (votes e)) t)
       (mSessions m)"

text \<open>
  Unlinking one thread: find the thread's vector, find the first occurrence of the
  pointer in it, erase it, and drop the vector once it is empty. The Boolean says whether
  an occurrence was found.
\<close>

definition task_unlink ::
  "addr \<Rightarrow> tid \<Rightarrow> (tid, addr list) umap \<Rightarrow> bool \<times> (tid, addr list) umap" where
  "task_unlink p t ts =
     (case umap_find ts t of
        None \<Rightarrow> (False, ts)
      | Some ps \<Rightarrow>
          if p \<notin> set ps then (False, ts)
          else
            let ps' = remove1 p ps in
            (True, if ps' = [] then umap_erase t ts else umap_set t ps' ts))"

definition STM_remove :: "sid \<Rightarrow> SessionTaskMap \<Rightarrow> bool \<times> SessionTaskMap" where
  "STM_remove s m =
     (case umap_find (mSessions m) s of
        None \<Rightarrow> (False, m)
      | Some ve \<Rightarrow>
          (True, m\<lparr>mTasks := fold (\<lambda>t ts. snd (task_unlink (val ve) t ts)) (linkedTasks ve) (mTasks m),
                  mSessions := umap_erase s (mSessions m)\<rparr>))"

definition STM_removeDeadTaskSessionMap ::
  "sid \<Rightarrow> tid \<Rightarrow> SessionTaskMap \<Rightarrow> bool \<times> SessionTaskMap" where
  "STM_removeDeadTaskSessionMap s taskId m =
     (case umap_find (mSessions m) s of
        None \<Rightarrow> (False, m)
      | Some ve \<Rightarrow>
          let (found, ts) = task_unlink (val ve) taskId (mTasks m)
          in (found, m\<lparr>mTasks := ts\<rparr>))"

text \<open>
  \<open>replace\<close> also reports, through its two output vectors, the threads that no session was
  linked to before, and those no session is linked to afterwards.
\<close>

definition STM_replace ::
  "sid \<Rightarrow> tid list \<Rightarrow> SessionTaskMap \<Rightarrow> bool \<times> tid list \<times> tid list \<times> SessionTaskMap" where
  "STM_replace s taskIds m =
     (case umap_find (mSessions m) s of
        None \<Rightarrow> (False, [], [], m)
      | Some ve \<Rightarrow>
          let svTmp = val ve;
              previousTaskIds = linkedTasks ve;
              addedThreads = filter (\<lambda>t. umap_find (mTasks m) t = None) taskIds;
              m1 = snd (STM_remove s m);
              m2 = snd (STM_add s (entryStore m1 svTmp) taskIds m1);
              removedThreads = filter (\<lambda>t. umap_find (mTasks m2) t = None) previousTaskIds
          in (True, addedThreads, removedThreads, m2))"

definition STM_sizeSessions :: "SessionTaskMap \<Rightarrow> nat" where
  "STM_sizeSessions m = length (mSessions m)"

definition STM_sizeTasks :: "SessionTaskMap \<Rightarrow> nat" where
  "STM_sizeTasks m = length (mTasks m)"

definition STM_idString :: "sid \<Rightarrow> SessionTaskMap \<Rightarrow> string" where
  "STM_idString s m =
     (case umap_find (mSessions m) s of
        None \<Rightarrow> '''' | Some ve \<Rightarrow> idString (entryStore m (val ve)))"

definition STM_isAppSession :: "sid \<Rightarrow> SessionTaskMap \<Rightarrow> bool" where
  "STM_isAppSession s m =
     (case umap_find (mSessions m) s of
        None \<Rightarrow> False | Some ve \<Rightarrow> isAppSession (entryStore m (val ve)))"

text \<open>What the two iteration templates hand to their callback, in order.\<close>

definition STM_forEachSessionInTask ::
  "tid \<Rightarrow> SessionTaskMap \<Rightarrow> (sid \<times> SessionValueEntry) list" where
  "STM_forEachSessionInTask taskId m =
     (case umap_find (mTasks m) taskId of
        None \<Rightarrow> []
      | Some ps \<Rightarrow> List.map_filter (\<lambda>p.
            let s = sessionId (entryStore m p) in
            map_option (\<lambda>ve. (s, entryStore m (val ve))) (umap_find (mSessions m) s)) ps)"

definition STM_forEachSessionValTasks ::
  "SessionTaskMap \<Rightarrow> (sid \<times> SessionValueEntry \<times> tid list) list" where
  "STM_forEachSessionValTasks m =
     map (\<lambda>(s, ve). (s, entryStore m (val ve), linkedTasks ve)) (mSessions m)"

text \<open>
  What a holder of the pointer \<open>findSession\<close> returns does with it: write fields of the
  entry it points to, or change the votes object the entry owns.
\<close>

definition STM_write_entry ::
  "sid \<Rightarrow> (SessionValueEntry \<Rightarrow> SessionValueEntry) \<Rightarrow> SessionTaskMap \<Rightarrow> SessionTaskMap" where
  "STM_write_entry s f m =
     (case STM_findSession s m of
        None \<Rightarrow> m
      | Some p \<Rightarrow> m\<lparr>entryStore := (entryStore m)(p := f (entryStore m p))\<rparr>)"

definition STM_write_votes ::
  "sid \<Rightarrow> (Votes \<Rightarrow> Votes) \<Rightarrow> SessionTaskMap \<Rightarrow> SessionTaskMap" where
  "STM_write_votes s f m =
     (case STM_findSession s m of
        None \<Rightarrow> m
      | Some p \<Rightarrow>
          let q = votes (entryStore m p) in
          m\<lparr>votesStore := (votesStore m)(q := f (votesStore m q))\<rparr>)"

text \<open>
  The thread list \<open>getTaskIds\<close> returns is a reference; erasing position \<open>i\<close> of it writes
  the session's own list.
\<close>

definition STM_erase_linked :: "sid \<Rightarrow> nat \<Rightarrow> SessionTaskMap \<Rightarrow> SessionTaskMap" where
  "STM_erase_linked s i m =
     (case umap_find (mSessions m) s of
        None \<Rightarrow> m
      | Some ve \<Rightarrow> m\<lparr>mSessions := umap_set s
          (ve\<lparr>linkedTasks := take i (linkedTasks ve) @ drop (Suc i) (linkedTasks ve)\<rparr>)
          (mSessions m)\<rparr>)"

definition STM_init :: SessionTaskMap where
  "STM_init = \<lparr>mSessions = [], mTasks = [],
     entryStore = (\<lambda>_. \<lparr>sessionId = 0, tgid = 0, uid = 0, idString = '''', isActive = True,
        isAppSession = False, lastUpdatedTime = 0, votes = 0, isPowerEfficient = False\<rparr>),
     votesStore = (\<lambda>_. Votes_init), nextAddr = 0\<rparr>"

subsection \<open>Specification\<close>

definition task_get :: "(tid, addr list) umap \<Rightarrow> tid \<Rightarrow> addr list" where
  "task_get ts t = (case umap_find ts t of None \<Rightarrow> [] | Some ps \<Rightarrow> ps)"

text \<open>The contract: a map from session to its value and its linked threads.\<close>

definition STM_abs :: "SessionTaskMap \<Rightarrow> sid \<rightharpoonup> SessionValueEntry \<times> tid list" where
  "STM_abs m s =
     map_option (\<lambda>ve. (entryStore m (val ve), linkedTasks ve)) (umap_find (mSessions m) s)"

text \<open>What \<open>mTasks\<close> and the stores owe one session.\<close>

definition session_ok :: "SessionTaskMap \<Rightarrow> sid \<Rightarrow> ValEntry \<Rightarrow> bool" where
  "session_ok m s ve \<longleftrightarrow>
     (let e = entryStore m (val ve) in
      val ve < nextAddr m \<and> sessionId e = s \<and>
      votes e < nextAddr m \<and> Votes_wf (votesStore m (votes e)) \<and>
      (\<forall>t. count_list (task_get (mTasks m) t) (val ve) = count_list (linkedTasks ve) t))"

definition STM_wf :: "SessionTaskMap \<Rightarrow> bool" where
  "STM_wf m \<longleftrightarrow>
     umap_wf (mSessions m) \<and> umap_wf (mTasks m) \<and>
     (\<forall>t. umap_find (mTasks m) t \<noteq> Some []) \<and>
     (\<forall>s ve. umap_find (mSessions m) s = Some ve \<longrightarrow> session_ok m s ve) \<and>
     (\<forall>t. \<forall>p \<in> set (task_get (mTasks m) t).
        \<exists>s ve. umap_find (mSessions m) s = Some ve \<and> val ve = p) \<and>
     (\<forall>s e ts s' e' ts'. STM_abs m s = Some (e, ts) \<longrightarrow> STM_abs m s' = Some (e', ts') \<longrightarrow>
        votes e = votes e' \<longrightarrow> s = s')"

definition STM_votes :: "SessionTaskMap \<Rightarrow> sid \<rightharpoonup> Votes" where
  "STM_votes m s = map_option (\<lambda>(e, ts). votesStore m (votes e)) (STM_abs m s)"

text \<open>The clamps that bear on a thread: those in force of the active sessions linked to it.\<close>

definition task_clamps ::
  "(UclampRange \<Rightarrow> int) \<Rightarrow> SessionTaskMap \<Rightarrow> tid \<Rightarrow> time \<Rightarrow> int set" where
  "task_clamps f m t now =
     {f (mUclampRange v) |s e ts i v.
        STM_abs m s = Some (e, ts) \<and> t \<in> set ts \<and> isActive e \<and>
        Votes_abs (votesStore m (votes e)) i = Some (VCpu v) \<and> isTimeInRange v now}"

text \<open>A value whose votes object is its own: what \<open>add\<close> needs of its argument.\<close>

definition fresh_entry :: "SessionTaskMap \<Rightarrow> SessionValueEntry \<Rightarrow> bool" where
  "fresh_entry m sv \<longleftrightarrow>
     votes sv < nextAddr m \<and> Votes_wf (votesStore m (votes sv)) \<and>
     (\<forall>s e ts. STM_abs m s = Some (e, ts) \<longrightarrow> votes e \<noteq> votes sv)"

text \<open>The clamps one pointer of a thread's vector contributes.\<close>

definition ptr_clamps ::
  "(UclampRange \<Rightarrow> int) \<Rightarrow> SessionTaskMap \<Rightarrow> time \<Rightarrow> addr \<Rightarrow> int set" where
  "ptr_clamps f m now p =
     (if isActive (entryStore m p)
      then clamps_in_force f (mCpuVotes (votesStore m (votes (entryStore m p)))) now else {})"

abbreviation STM_replaced :: "sid \<Rightarrow> tid list \<Rightarrow> SessionTaskMap \<Rightarrow> SessionTaskMap" where
  "STM_replaced s ts m \<equiv> snd (snd (snd (STM_replace s ts m)))"

text \<open>Two sessions sharing thread 7, for the examples.\<close>

definition sample_entry :: "addr \<Rightarrow> SessionValueEntry" where
  "sample_entry q = \<lparr>sessionId = 0, tgid = 1, uid = 10001, idString = ''app'', isActive = True,
     isAppSession = True, lastUpdatedTime = 0, votes = q, isPowerEfficient = False\<rparr>"

definition sample_map :: SessionTaskMap where
  "sample_map =
     STM_addVote 2 0 600 1024 0 50
       (STM_addVote 1 0 480 900 0 50
         (snd (STM_add 2 (sample_entry 1) [7, 7, 9]
           (snd (STM_add 1 (sample_entry 0) [7, 8] (STM_init\<lparr>nextAddr := 2\<rparr>))))))"

section \<open>The table of threads\<close>

lemma task_get_push [simp]:
  "task_get (task_push p t ts) u = (if u = t then task_get ts t @ [p] else task_get ts u)"
  by (simp add: task_get_def task_push_def umap_simps)

lemma task_get_push_all:
  "task_get (fold (task_push p) us ts) u = task_get ts u @ replicate (count_list us u) p"
  by (induction us arbitrary: ts) (simp_all add: replicate_append_same flip: replicate_Suc)

lemma task_get_unlink [simp]:
  "task_get (snd (task_unlink p t ts)) u =
     (if u = t then remove1 p (task_get ts t) else task_get ts u)"
  by (auto simp: task_get_def task_unlink_def umap_simps Let_def remove1_idem
      split: option.splits)

lemma task_get_unlink_all:
  "task_get (fold (\<lambda>t ts. snd (task_unlink p t ts)) us ts) u =
     (remove1 p ^^ count_list us u) (task_get ts u)"
  by (induction us arbitrary: ts) (simp_all add: funpow_swap1)

lemma count_list_remove1:
  "count_list (remove1 p xs) q = (if q = p then count_list xs q - 1 else count_list xs q)"
  by (induction xs) (auto simp: count_list_0_iff Suc_diff_Suc dest: count_list_0_iff [THEN iffD1])

lemma count_list_remove1s:
  "count_list ((remove1 p ^^ n) xs) q = (if q = p then count_list xs q - n else count_list xs q)"
  by (induction n) (simp_all add: count_list_remove1)

lemma count_list_replicate: "count_list (replicate n x) y = (if y = x then n else 0)"
  by (induction n) auto

lemma set_count_list: "x \<in> set xs \<longleftrightarrow> 0 < count_list xs x"
  using count_notin [of x xs] by (metis count_list_0_iff gr0I less_irrefl)

lemma task_find_get:
  assumes "\<forall>t. umap_find ts t \<noteq> Some []"
  shows "umap_find ts t = None \<longleftrightarrow> task_get ts t = []"
  using assms by (auto simp: task_get_def split: option.splits)

lemma task_push_all_wf:
  assumes "umap_wf ts" and "\<forall>t. umap_find ts t \<noteq> Some []"
  shows "umap_wf (fold (task_push p) us ts) \<and> (\<forall>t. umap_find (fold (task_push p) us ts) t \<noteq> Some [])"
  using assms by (induction us arbitrary: ts) (auto simp: task_push_def umap_simps)

lemma task_unlink_all_wf:
  assumes "umap_wf ts" and "\<forall>t. umap_find ts t \<noteq> Some []"
  shows "umap_wf (fold (\<lambda>t ts. snd (task_unlink p t ts)) us ts) \<and>
    (\<forall>t. umap_find (fold (\<lambda>t ts. snd (task_unlink p t ts)) us ts) t \<noteq> Some [])"
  using assms
proof (induction us arbitrary: ts)
  case (Cons u us)
  have "umap_wf (snd (task_unlink p u ts)) \<and> (\<forall>t. umap_find (snd (task_unlink p u ts)) t \<noteq> Some [])"
    using Cons.prems by (auto simp: task_unlink_def umap_simps Let_def split: option.splits)
  with Cons.IH show ?case by simp
qed simp

section \<open>Adding, removing, replacing\<close>

lemma STM_wfD:
  assumes "STM_wf m" and "umap_find (mSessions m) s = Some ve"
  shows "session_ok m s ve"
  using assms by (simp add: STM_wf_def)

lemma val_inj:
  assumes "STM_wf m" and "umap_find (mSessions m) s = Some ve"
    and "umap_find (mSessions m) s' = Some ve'" and "val ve = val ve'"
  shows "s = s'"
  using STM_wfD [OF assms(1,2)] STM_wfD [OF assms(1,3)] assms(4)
  by (simp add: session_ok_def Let_def)

lemma task_member_session:
  assumes "STM_wf m" and "p \<in> set (task_get (mTasks m) t)"
  obtains s ve where "umap_find (mSessions m) s = Some ve" "val ve = p"
  using assms unfolding STM_wf_def by blast

lemma task_member_bound:
  assumes "STM_wf m" and "p \<in> set (task_get (mTasks m) t)"
  shows "p < nextAddr m"
proof -
  from assms obtain s ve where "umap_find (mSessions m) s = Some ve" "val ve = p"
    by (rule task_member_session)
  with STM_wfD [OF assms(1)] show ?thesis by (auto simp: session_ok_def Let_def)
qed

lemma STM_abs_remove [simp]: "STM_abs (snd (STM_remove s m)) = (STM_abs m)(s := None)"
  by (auto simp: fun_eq_iff STM_abs_def STM_remove_def umap_simps split: option.splits)

lemma STM_remove_result: "fst (STM_remove s m) \<longleftrightarrow> s \<in> dom (STM_abs m)"
  by (auto simp: STM_abs_def STM_remove_def split: option.splits)

lemma STM_remove_frame [simp]:
  "entryStore (snd (STM_remove s m)) = entryStore m"
  "votesStore (snd (STM_remove s m)) = votesStore m"
  "nextAddr (snd (STM_remove s m)) = nextAddr m"
  by (auto simp: STM_remove_def split: option.splits)

lemma STM_remove_wf:
  assumes wf: "STM_wf m"
  shows "STM_wf (snd (STM_remove s m))"
proof (cases "umap_find (mSessions m) s")
  case None
  with wf show ?thesis by (simp add: STM_remove_def)
next
  case (Some ve)
  let ?m = "snd (STM_remove s m)"
  have sess: "mSessions ?m = umap_erase s (mSessions m)"
    and tasks: "mTasks ?m = fold (\<lambda>t ts. snd (task_unlink (val ve) t ts)) (linkedTasks ve) (mTasks m)"
    using Some by (simp_all add: STM_remove_def)
  have cnt: "count_list (task_get (mTasks ?m) t) q =
      (if q = val ve then 0 else count_list (task_get (mTasks m) t) q)" for t q
    using STM_wfD [OF wf Some]
    by (simp add: tasks task_get_unlink_all count_list_remove1s session_ok_def Let_def)
  have members: "\<exists>s' ve'. umap_find (mSessions ?m) s' = Some ve' \<and> val ve' = q"
    if "q \<in> set (task_get (mTasks ?m) t)" for t q
  proof -
    have q: "q \<noteq> val ve" "q \<in> set (task_get (mTasks m) t)"
      using that cnt [of t q] by (auto simp: set_count_list split: if_splits)
    obtain s' ve' where s': "umap_find (mSessions m) s' = Some ve'" "val ve' = q"
      using wf q(2) by (rule task_member_session)
    with q(1) Some have "s' \<noteq> s" by auto
    with s' show ?thesis by (auto simp: sess umap_simps)
  qed
  have ok: "session_ok ?m s' ve'" if "umap_find (mSessions ?m) s' = Some ve'" for s' ve'
  proof -
    have s': "s' \<noteq> s" "umap_find (mSessions m) s' = Some ve'"
      using that by (auto simp: sess umap_simps split: if_splits)
    then have "val ve' \<noteq> val ve" using val_inj [OF wf s'(2) Some] by blast
    with STM_wfD [OF wf s'(2)] show ?thesis by (simp add: session_ok_def Let_def cnt)
  qed
  show ?thesis
    using wf members ok task_unlink_all_wf [of "mTasks m" "val ve" "linkedTasks ve"]
    unfolding STM_wf_def [of ?m] STM_wf_def [of m] STM_abs_remove
    by (auto simp: sess tasks umap_simps split: if_splits)
qed

lemma STM_add_result: "fst (STM_add s sv ts m) \<longleftrightarrow> s \<notin> dom (STM_abs m)"
  by (auto simp: STM_abs_def STM_add_def Let_def)

lemma STM_abs_add:
  assumes "STM_wf m"
  shows "STM_abs (snd (STM_add s sv ts m)) =
    (if s \<in> dom (STM_abs m) then STM_abs m else (STM_abs m)(s \<mapsto> (sv\<lparr>sessionId := s\<rparr>, ts)))"
proof -
  have "val ve \<noteq> nextAddr m" if "umap_find (mSessions m) s' = Some ve" for s' ve
    using STM_wfD [OF assms that] by (simp add: session_ok_def Let_def)
  then show ?thesis
    by (auto simp: fun_eq_iff STM_abs_def STM_add_def Let_def umap_simps
        intro!: option.map_cong0)
qed

lemma STM_add_new:
  assumes "umap_find (mSessions m) s = None"
  shows "mSessions (snd (STM_add s sv ts m)) =
      umap_set s \<lparr>val = nextAddr m, linkedTasks = ts\<rparr> (mSessions m)"
    and "mTasks (snd (STM_add s sv ts m)) = fold (task_push (nextAddr m)) ts (mTasks m)"
    and "entryStore (snd (STM_add s sv ts m)) =
      (entryStore m)(nextAddr m := sv\<lparr>sessionId := s\<rparr>)"
    and "votesStore (snd (STM_add s sv ts m)) = votesStore m"
    and "nextAddr (snd (STM_add s sv ts m)) = Suc (nextAddr m)"
  using assms by (simp_all add: STM_add_def Let_def)

lemma push_all_count:
  "count_list (task_get (fold (task_push p) us ts) t) q =
     count_list (task_get ts t) q + (if q = p then count_list us t else 0)"
  by (simp add: task_get_push_all count_list_replicate)

lemma next_not_linked: "STM_wf m \<Longrightarrow> count_list (task_get (mTasks m) t) (nextAddr m) = 0"
  using task_member_bound [of m "nextAddr m" t] by (auto simp: count_list_0_iff)

lemma fresh_entry_old:
  assumes "STM_wf m" and "fresh_entry m sv" and "umap_find (mSessions m) s = Some ve"
  shows "val ve < nextAddr m" "votes (entryStore m (val ve)) < nextAddr m"
    "votes (entryStore m (val ve)) \<noteq> votes sv"
  using STM_wfD [OF assms(1,3)] assms(2,3)
  by (auto simp: session_ok_def Let_def fresh_entry_def STM_abs_def)

lemma STM_add_session_ok:
  assumes wf: "STM_wf m" and fresh: "fresh_entry m sv" and new: "umap_find (mSessions m) s = None"
    and s': "umap_find (mSessions (snd (STM_add s sv ts m))) s' = Some ve'"
  shows "session_ok (snd (STM_add s sv ts m)) s' ve'"
proof (cases "s' = s")
  case True
  with s' fresh show ?thesis
    by (auto simp: STM_add_new [OF new] umap_simps session_ok_def Let_def push_all_count
        next_not_linked [OF wf] fresh_entry_def)
next
  case False
  then have "umap_find (mSessions m) s' = Some ve'"
    using s' by (simp add: STM_add_new [OF new] umap_simps)
  with STM_wfD [OF wf this] fresh_entry_old [OF wf fresh this] show ?thesis
    by (auto simp: session_ok_def Let_def STM_add_new [OF new] push_all_count)
qed

lemma STM_add_members:
  assumes wf: "STM_wf m" and new: "umap_find (mSessions m) s = None"
    and q: "q \<in> set (task_get (mTasks (snd (STM_add s sv ts m))) t)"
  shows "\<exists>s' ve'. umap_find (mSessions (snd (STM_add s sv ts m))) s' = Some ve' \<and> val ve' = q"
proof (cases "q = nextAddr m")
  case True
  then show ?thesis by (auto simp: STM_add_new [OF new] umap_simps)
next
  case False
  then have "q \<in> set (task_get (mTasks m) t)"
    using q by (simp add: set_count_list STM_add_new [OF new] push_all_count)
  with wf obtain s' ve' where s': "umap_find (mSessions m) s' = Some ve'" "val ve' = q"
    by (rule task_member_session)
  with new have "s' \<noteq> s" by auto
  with s' show ?thesis by (auto simp: STM_add_new [OF new] umap_simps)
qed

lemma STM_add_wf:
  assumes wf: "STM_wf m" and fresh: "fresh_entry m sv"
  shows "STM_wf (snd (STM_add s sv ts m))"
proof (cases "umap_find (mSessions m) s")
  case (Some ve)
  with wf show ?thesis by (simp add: STM_add_def)
next
  case None
  let ?m = "snd (STM_add s sv ts m)"
  have inj: "\<forall>s1 e1 ts1 s2 e2 ts2. STM_abs ?m s1 = Some (e1, ts1) \<longrightarrow> STM_abs ?m s2 = Some (e2, ts2) \<longrightarrow>
      votes e1 = votes e2 \<longrightarrow> s1 = s2"
    using wf fresh unfolding STM_wf_def [of m] STM_abs_add [OF wf] fresh_entry_def
    by (auto split: if_splits) metis+
  show ?thesis
    using wf STM_add_session_ok [OF wf fresh None] STM_add_members [OF wf None] inj
      task_push_all_wf [of "mTasks m" "nextAddr m" ts]
    unfolding STM_wf_def [of ?m] STM_wf_def [of m]
    by (simp add: STM_add_new [OF None] umap_simps)
qed

lemma STM_wf_votes_inj:
  assumes "STM_wf m" "STM_abs m s = Some (e, ts)" "STM_abs m s' = Some (e', ts')"
    and "votes e = votes e'"
  shows "s = s'"
  using assms unfolding STM_wf_def by blast

lemma STM_removed_fresh:
  assumes wf: "STM_wf m" and s: "umap_find (mSessions m) s = Some ve"
  shows "fresh_entry (snd (STM_remove s m)) (entryStore m (val ve))"
proof -
  have "STM_abs m s = Some (entryStore m (val ve), linkedTasks ve)"
    using s by (simp add: STM_abs_def)
  with STM_wfD [OF wf s] STM_wf_votes_inj [OF wf] show ?thesis
    by (auto simp: fresh_entry_def session_ok_def Let_def split: if_splits)
qed

lemma STM_replace_Some:
  assumes "umap_find (mSessions m) s = Some ve"
  shows "STM_replace s ts m =
    (let m2 = snd (STM_add s (entryStore m (val ve)) ts (snd (STM_remove s m))) in
     (True, filter (\<lambda>t. umap_find (mTasks m) t = None) ts,
      filter (\<lambda>t. umap_find (mTasks m2) t = None) (linkedTasks ve), m2))"
  using assms by (simp add: STM_replace_def Let_def)

lemma STM_replace_wf: "STM_wf m \<Longrightarrow> STM_wf (STM_replaced s ts m)"
  by (cases "umap_find (mSessions m) s")
    (simp_all add: STM_replace_Some Let_def STM_add_wf STM_remove_wf STM_removed_fresh,
      simp add: STM_replace_def)

lemma sessionId_update_same [simp]: "sessionId e = s \<Longrightarrow> e\<lparr>sessionId := s\<rparr> = e"
  by (cases e) simp

lemma STM_abs_replace:
  assumes wf: "STM_wf m"
  shows "STM_abs (STM_replaced s ts m) =
    (STM_abs m)(s := map_option (\<lambda>(e, _). (e, ts)) (STM_abs m s))"
proof (cases "umap_find (mSessions m) s")
  case None
  then show ?thesis by (auto simp: STM_replace_def STM_abs_def fun_eq_iff)
next
  case (Some ve)
  then have "STM_abs m s = Some (entryStore m (val ve), linkedTasks ve)"
    and "sessionId (entryStore m (val ve)) = s"
    using STM_wfD [OF wf Some] by (simp_all add: STM_abs_def session_ok_def Let_def)
  then show ?thesis
    by (simp add: STM_replace_Some [OF Some] Let_def STM_abs_add [OF STM_remove_wf [OF wf]])
qed

lemma STM_replace_frame:
  "votesStore (STM_replaced s ts m) = votesStore m"
  by (auto simp: STM_replace_def STM_add_def STM_remove_def Let_def split: option.splits)

section \<open>Threads and the sessions linked to them\<close>

lemma count_list_map_inj:
  assumes "\<And>x. x \<in> set xs \<Longrightarrow> f x = y \<longleftrightarrow> x = a"
  shows "count_list (map f xs) y = count_list xs a"
  using assms by (induction xs) auto

lemma count_sessions:
  assumes wf: "STM_wf m"
  shows "count_list (STM_getSessionIds t m) s =
    (case STM_abs m s of None \<Rightarrow> 0 | Some (e, ts) \<Rightarrow> count_list ts t)"
proof -
  have ids: "STM_getSessionIds t m = map (\<lambda>p. sessionId (entryStore m p)) (task_get (mTasks m) t)"
    by (simp add: STM_getSessionIds_def task_get_def split: option.splits)
  show ?thesis
  proof (cases "umap_find (mSessions m) s")
    case None
    have "sessionId (entryStore m p) \<noteq> s" if p: "p \<in> set (task_get (mTasks m) t)" for p
    proof -
      from wf p obtain s' ve' where s': "umap_find (mSessions m) s' = Some ve'" "val ve' = p"
        by (rule task_member_session)
      with STM_wfD [OF wf s'(1)] None show ?thesis by (auto simp: session_ok_def Let_def)
    qed
    then have "s \<notin> set (STM_getSessionIds t m)"
      unfolding ids by force
    then have "count_list (STM_getSessionIds t m) s = 0"
      by (rule count_notin)
    with None show ?thesis by (simp add: STM_abs_def)
  next
    case (Some ve)
    note ok = STM_wfD [OF wf Some]
    have "sessionId (entryStore m p) = s \<longleftrightarrow> p = val ve" if p: "p \<in> set (task_get (mTasks m) t)" for p
    proof -
      from wf p obtain s' ve' where s': "umap_find (mSessions m) s' = Some ve'" "val ve' = p"
        by (rule task_member_session)
      have "sessionId (entryStore m p) = s'" "sessionId (entryStore m (val ve)) = s"
        using STM_wfD [OF wf s'(1)] ok s'(2) by (simp_all add: session_ok_def Let_def)
      with s' Some show ?thesis by (metis option.inject)
    qed
    then have "count_list (STM_getSessionIds t m) s = count_list (task_get (mTasks m) t) (val ve)"
      unfolding ids by (rule count_list_map_inj)
    with Some ok show ?thesis by (simp add: STM_abs_def session_ok_def Let_def)
  qed
qed

lemma task_find_iff_linked:
  assumes wf: "STM_wf m"
  shows "umap_find (mTasks m) t = None \<longleftrightarrow> (\<forall>s e ts. STM_abs m s = Some (e, ts) \<longrightarrow> t \<notin> set ts)"
proof -
  have "umap_find (mTasks m) t = None \<longleftrightarrow> STM_getSessionIds t m = []"
    using wf by (auto simp: STM_getSessionIds_def STM_wf_def split: option.splits)
  also have "\<dots> \<longleftrightarrow> (\<forall>s. count_list (STM_getSessionIds t m) s = 0)"
    by (auto simp: count_list_0_iff)
  finally show ?thesis
    by (force simp: count_sessions [OF wf] count_list_0_iff split: option.splits)
qed

section \<open>Writing through the pointers\<close>

lemma STM_wf_cong:
  assumes "STM_wf m" and "mSessions m' = mSessions m" "mTasks m' = mTasks m"
    and "\<And>s ve. umap_find (mSessions m) s = Some ve \<Longrightarrow> session_ok m' s ve"
    and "\<And>s. map_option (\<lambda>(e, ts). votes e) (STM_abs m' s) = map_option (\<lambda>(e, ts). votes e) (STM_abs m s)"
  shows "STM_wf m'"
proof -
  have "s = s'" if "STM_abs m' s = Some (e, ts)" "STM_abs m' s' = Some (e', ts')" "votes e = votes e'"
    for s e ts s' e' ts'
    using that assms(5) [of s] assms(5) [of s'] STM_wf_votes_inj [OF assms(1), of s _ _ s']
    by (auto simp: map_option_case split: option.splits)
  with assms show ?thesis unfolding STM_wf_def by simp
qed

lemma STM_write_entry_abs:
  assumes wf: "STM_wf m"
  shows "STM_abs (STM_write_entry s f m) =
    (STM_abs m)(s := map_option (\<lambda>(e, ts). (f e, ts)) (STM_abs m s))"
proof (cases "umap_find (mSessions m) s")
  case None
  then show ?thesis by (simp add: STM_abs_def STM_write_entry_def STM_findSession_def fun_eq_iff)
next
  case (Some ve)
  have "val ve' = val ve \<longleftrightarrow> s' = s" if "umap_find (mSessions m) s' = Some ve'" for s' ve'
    using val_inj [OF wf that Some] that Some by auto
  then have "map_option (\<lambda>v. (((entryStore m)(val ve := f (entryStore m (val ve)))) (val v), linkedTasks v))
      (umap_find (mSessions m) s') = ((STM_abs m)(s \<mapsto> (f (entryStore m (val ve)), linkedTasks ve))) s'" for s'
    using Some by (cases "umap_find (mSessions m) s'"; cases "s' = s") (simp_all add: STM_abs_def)
  with Some show ?thesis
    by (simp add: STM_write_entry_def STM_findSession_def fun_eq_iff STM_abs_def)
qed

lemma STM_write_entry_frame [simp]:
  "mSessions (STM_write_entry s f m) = mSessions m"
  "mTasks (STM_write_entry s f m) = mTasks m"
  "votesStore (STM_write_entry s f m) = votesStore m"
  "nextAddr (STM_write_entry s f m) = nextAddr m"
  by (simp_all add: STM_write_entry_def split: option.splits)

lemma STM_write_entry_wf:
  assumes wf: "STM_wf m" and f: "\<And>e. sessionId (f e) = sessionId e" "\<And>e. votes (f e) = votes e"
  shows "STM_wf (STM_write_entry s f m)"
proof (rule STM_wf_cong [OF wf])
  fix s' ve assume "umap_find (mSessions m) s' = Some ve"
  from STM_wfD [OF wf this] show "session_ok (STM_write_entry s f m) s' ve"
    by (auto simp: session_ok_def Let_def STM_write_entry_def f split: option.splits)
qed (auto simp: STM_write_entry_abs [OF wf] f option.map_comp comp_def case_prod_unfold)

lemma STM_write_votes_frame [simp]:
  "mSessions (STM_write_votes s f m) = mSessions m"
  "mTasks (STM_write_votes s f m) = mTasks m"
  "entryStore (STM_write_votes s f m) = entryStore m"
  "nextAddr (STM_write_votes s f m) = nextAddr m"
  by (simp_all add: STM_write_votes_def Let_def split: option.splits)

lemma STM_write_votes_abs [simp]: "STM_abs (STM_write_votes s f m) = STM_abs m"
  by (simp add: STM_abs_def fun_eq_iff)

lemma STM_write_votes_wf:
  assumes wf: "STM_wf m" and f: "\<And>vs. Votes_wf vs \<Longrightarrow> Votes_wf (f vs)"
  shows "STM_wf (STM_write_votes s f m)"
proof (rule STM_wf_cong [OF wf])
  fix s' ve assume "umap_find (mSessions m) s' = Some ve"
  from STM_wfD [OF wf this] show "session_ok (STM_write_votes s f m) s' ve"
    by (auto simp: session_ok_def Let_def STM_write_votes_def f split: option.splits)
qed simp_all

lemma STM_votes_write_votes:
  assumes wf: "STM_wf m"
  shows "STM_votes (STM_write_votes s f m) = (STM_votes m)(s := map_option f (STM_votes m s))"
proof
  fix s'
  have store: "votesStore (STM_write_votes s f m) =
      (case STM_abs m s of None \<Rightarrow> votesStore m
       | Some (e, ts) \<Rightarrow> (votesStore m)(votes e := f (votesStore m (votes e))))"
    by (auto simp: STM_write_votes_def STM_findSession_def STM_abs_def Let_def split: option.splits)
  show "STM_votes (STM_write_votes s f m) s' = ((STM_votes m)(s := map_option f (STM_votes m s))) s'"
    using STM_wf_votes_inj [OF wf, of s' _ _ s]
    by (cases "STM_abs m s'"; cases "STM_abs m s") (force simp: STM_votes_def store)+
qed

lemma STM_addVote_write:
  "STM_addVote s i lo hi t d m = STM_write_votes s (Votes_addCpu i (mkCpuVote True t d lo hi)) m"
  by (simp add: STM_addVote_def STM_write_votes_def STM_findSession_def split: option.splits)

lemma STM_addGpuVote_write:
  "STM_addGpuVote s i c t d m = STM_write_votes s (Votes_addGpu i (mkGpuVote True t d c)) m"
  by (simp add: STM_addGpuVote_def STM_write_votes_def STM_findSession_def split: option.splits)

section \<open>Dropping a dead thread\<close>

lemma count_list_erase:
  assumes "i < length xs"
  shows "count_list (take i xs @ drop (Suc i) xs) y = count_list xs y - (if y = xs ! i then 1 else 0)"
proof -
  have "count_list xs y = count_list (take i xs @ xs ! i # drop (Suc i) xs) y"
    using id_take_nth_drop [OF assms] by simp
  then show ?thesis by simp
qed

lemma drop_dead:
  assumes wf: "STM_wf m" and s: "umap_find (mSessions m) s = Some ve"
    and i: "i < length (linkedTasks ve)"
  defines "m' \<equiv> STM_erase_linked s i (snd (STM_removeDeadTaskSessionMap s (linkedTasks ve ! i) m))"
    and "ve' \<equiv> ve\<lparr>linkedTasks := take i (linkedTasks ve) @ drop (Suc i) (linkedTasks ve)\<rparr>"
  shows "mSessions m' = umap_set s ve' (mSessions m)"
    and "mTasks m' = snd (task_unlink (val ve) (linkedTasks ve ! i) (mTasks m))"
    and "entryStore m' = entryStore m" "votesStore m' = votesStore m" "nextAddr m' = nextAddr m"
    and "fst (STM_removeDeadTaskSessionMap s (linkedTasks ve ! i) m)"
proof -
  have "val ve \<in> set (task_get (mTasks m) (linkedTasks ve ! i))"
    using STM_wfD [OF wf s] i nth_mem [OF i]
    by (simp add: session_ok_def Let_def set_count_list)
  then have "fst (task_unlink (val ve) (linkedTasks ve ! i) (mTasks m))"
    by (cases "umap_find (mTasks m) (linkedTasks ve ! i)")
      (auto simp: task_unlink_def task_get_def Let_def)
  then show "fst (STM_removeDeadTaskSessionMap s (linkedTasks ve ! i) m)"
    using s by (simp add: STM_removeDeadTaskSessionMap_def case_prod_unfold)
qed (use s in \<open>simp_all add: m'_def ve'_def STM_erase_linked_def STM_removeDeadTaskSessionMap_def
       Let_def split: prod.splits\<close>)

lemma drop_dead_abs:
  assumes wf: "STM_wf m" and s: "STM_abs m s = Some (e, ts)" and i: "i < length ts"
  shows "STM_abs (STM_erase_linked s i (snd (STM_removeDeadTaskSessionMap s (ts ! i) m))) =
    (STM_abs m)(s \<mapsto> (e, take i ts @ drop (Suc i) ts))"
proof -
  obtain ve where ve: "umap_find (mSessions m) s = Some ve" "e = entryStore m (val ve)"
      "ts = linkedTasks ve"
    using s by (auto simp: STM_abs_def)
  from drop_dead [OF wf ve(1)] i ve show ?thesis
    by (auto simp: STM_abs_def fun_eq_iff umap_simps)
qed

lemma STM_wf_relink:
  assumes wf: "STM_wf m" and s: "umap_find (mSessions m) s = Some ve" and val: "val ve' = val ve"
    and m': "mSessions m' = umap_set s ve' (mSessions m)" "entryStore m' = entryStore m"
      "votesStore m' = votesStore m" "nextAddr m' = nextAddr m"
    and tab: "umap_wf (mTasks m') \<and> (\<forall>t. umap_find (mTasks m') t \<noteq> Some [])"
    and cnt: "\<And>u p. count_list (task_get (mTasks m') u) p =
      (if p = val ve then count_list (linkedTasks ve') u else count_list (task_get (mTasks m) u) p)"
  shows "STM_wf m'"
proof -
  have ok: "session_ok m' s1 v1" if "umap_find (mSessions m') s1 = Some v1" for s1 v1
  proof (cases "s1 = s")
    case True
    with that have "v1 = ve'" by (simp add: m' umap_simps)
    with True STM_wfD [OF wf s] show ?thesis
      by (simp add: session_ok_def Let_def cnt m' val)
  next
    case False
    with that have s1: "umap_find (mSessions m) s1 = Some v1" by (simp add: m' umap_simps)
    with val_inj [OF wf s1 s] False STM_wfD [OF wf s1] show ?thesis
      by (auto simp: session_ok_def Let_def cnt m')
  qed
  have members: "\<exists>s1 v1. umap_find (mSessions m') s1 = Some v1 \<and> val v1 = p"
    if "p \<in> set (task_get (mTasks m') u)" for u p
  proof (cases "p = val ve")
    case False
    with that have "p \<in> set (task_get (mTasks m) u)" by (simp add: set_count_list cnt)
    with wf obtain s1 v1 where "umap_find (mSessions m) s1 = Some v1" "val v1 = p"
      by (rule task_member_session)
    with False s show ?thesis by (cases "s1 = s") (auto simp: m' umap_simps)
  qed (auto simp: m' umap_simps val)
  have old: "\<exists>ts. STM_abs m s1 = Some (e1, ts)" if "STM_abs m' s1 = Some (e1, ts1)" for s1 e1 ts1
    using that s by (auto simp: STM_abs_def m' val umap_simps split: if_splits)
  have inj: "s1 = s2" if "STM_abs m' s1 = Some (e1, ts1)" "STM_abs m' s2 = Some (e2, ts2)"
      "votes e1 = votes e2" for s1 e1 ts1 s2 e2 ts2
    using old [OF that(1)] old [OF that(2)] STM_wf_votes_inj [OF wf] that(3) by blast
  have "umap_wf (mSessions m')" using wf by (simp add: m' umap_simps STM_wf_def)
  with ok members inj tab show ?thesis unfolding STM_wf_def [of m'] by blast
qed

lemma drop_dead_wf:
  assumes wf: "STM_wf m" and s: "STM_abs m s = Some (e, ts)" and i: "i < length ts"
  shows "STM_wf (STM_erase_linked s i (snd (STM_removeDeadTaskSessionMap s (ts ! i) m)))"
proof -
  obtain ve where ve: "umap_find (mSessions m) s = Some ve" and ts: "ts = linkedTasks ve"
    using s by (auto simp: STM_abs_def)
  note m = drop_dead [OF wf ve i [unfolded ts]]
  have cnt: "count_list (task_get (mTasks m) u) (val ve) = count_list (linkedTasks ve) u" for u
    using STM_wfD [OF wf ve] by (simp add: session_ok_def Let_def)
  show ?thesis unfolding ts
  proof (rule STM_wf_relink [OF wf ve _ m(1,3,4,5)], goal_cases)
    case 2
    show ?case
      using wf task_unlink_all_wf [of "mTasks m" "val ve" "[linkedTasks ve ! i]"]
      by (simp add: m(2) STM_wf_def)
  next
    case (3 u p)
    show ?case
      by (simp add: m(2) count_list_remove1 count_list_erase [OF i [unfolded ts], simplified] cnt)
  qed simp
qed

section \<open>The range of a thread and the capacity of all sessions\<close>

lemma Max_insert_Max: "finite A \<Longrightarrow> finite B \<Longrightarrow>
    Max (insert (Max (insert a A)) B) = Max (insert (a :: int) (A \<union> B))"
  by (cases "A = {}"; cases "B = {}") (auto simp: Max.union max.assoc)

lemma Min_insert_Min: "finite A \<Longrightarrow> finite B \<Longrightarrow>
    Min (insert (Min (insert a A)) B) = Min (insert (a :: int) (A \<union> B))"
  by (cases "A = {}"; cases "B = {}") (auto simp: Min.union min.assoc)

lemma finite_ptr_clamps [simp]: "finite (ptr_clamps f m now p)"
  by (simp add: ptr_clamps_def)

lemma session_confine_min:
  "uclampMin (session_confine m now b k p r) = Max (insert (uclampMin r) (ptr_clamps uclampMin m now p))"
  by (simp add: session_confine_def Let_def ptr_clamps_def getUclampRange_def fold_confine
      split: option.splits)

lemma session_confine_max:
  "uclampMax (session_confine m now None k p r) = Min (insert (uclampMax r) (ptr_clamps uclampMax m now p))"
  by (simp add: session_confine_def Let_def ptr_clamps_def getUclampRange_def fold_confine)

lemma session_confine_max_le:
  "uclampMax (session_confine m now b k p r) \<le> uclampMax (session_confine m now None k p r)"
  by (simp add: session_confine_def Let_def split: option.splits)

lemma fold_session_confine_min:
  "uclampMin (fold (session_confine m now b k) ps r) =
     Max (insert (uclampMin r) (\<Union>p \<in> set ps. ptr_clamps uclampMin m now p))"
  by (induction ps arbitrary: r) (simp_all add: session_confine_min Max_insert_Max del: Max_insert)

lemma fold_session_confine_max:
  "uclampMax (fold (session_confine m now None k) ps r) =
     Min (insert (uclampMax r) (\<Union>p \<in> set ps. ptr_clamps uclampMax m now p))"
  by (induction ps arbitrary: r) (simp_all add: session_confine_max Min_insert_Min del: Min_insert)

lemma fold_session_confine_le:
  "uclampMax (fold (session_confine m now b k) ps r) \<le>
     Min (insert (uclampMax r) (\<Union>p \<in> set ps. ptr_clamps uclampMax m now p))"
proof (induction ps arbitrary: r)
  case (Cons p ps)
  let ?U = "\<Union>p \<in> set ps. ptr_clamps uclampMax m now p"
  have "uclampMax (fold (session_confine m now b k) (p # ps) r)
      \<le> Min (insert (uclampMax (session_confine m now b k p r)) ?U)"
    using Cons.IH by simp
  also have "\<dots> \<le> Min (insert (uclampMax (session_confine m now None k p r)) ?U)"
    using session_confine_max_le [of m now b k p r] by (auto simp: Min_le_iff intro: order.trans)
  also have "\<dots> = Min (insert (uclampMax r) (ptr_clamps uclampMax m now p \<union> ?U))"
    by (simp only: session_confine_max) (simp add: Min_insert_Min del: Min_insert)
  finally show ?case by simp
qed simp

lemma fold_session_confine_idle:
  assumes "p \<in> set ps" and "isActive (entryStore m p)" and "isPowerEfficient (entryStore m p)"
    and "allTimedOut (votesStore m (votes (entryStore m p))) now"
  shows "uclampMax (fold (session_confine m now (Some base) k) ps r) \<le> base"
  using assms(1)
proof (induction ps arbitrary: r)
  case (Cons q ps)
  have "uclampMax (fold (session_confine m now (Some base) k) ps r') \<le> uclampMax r'" for r'
    using fold_session_confine_le [of m now "Some base" k ps r'] by simp
  moreover have "uclampMax (session_confine m now (Some base) k p r) \<le> base"
    using assms by (simp add: session_confine_def Let_def)
  ultimately show ?case using Cons by (auto intro: order.trans)
qed simp

lemma task_clamps_ptr:
  assumes wf: "STM_wf m"
  shows "(\<Union>p \<in> set (task_get (mTasks m) t). ptr_clamps f m now p) = task_clamps f m t now"
proof -
  have "p \<in> set (task_get (mTasks m) t) \<longleftrightarrow>
      (\<exists>s ve. umap_find (mSessions m) s = Some ve \<and> val ve = p \<and> t \<in> set (linkedTasks ve))" for p
  proof
    assume p: "p \<in> set (task_get (mTasks m) t)"
    with wf obtain s ve where s: "umap_find (mSessions m) s = Some ve" "val ve = p"
      by (rule task_member_session)
    with STM_wfD [OF wf s(1)] p
    show "\<exists>s ve. umap_find (mSessions m) s = Some ve \<and> val ve = p \<and> t \<in> set (linkedTasks ve)"
      by (auto simp: session_ok_def Let_def set_count_list)
  qed (use STM_wfD [OF wf] in \<open>fastforce simp: session_ok_def Let_def set_count_list\<close>)
  moreover have "ptr_clamps f m now (val ve) =
      {f (mUclampRange v) |i v. isActive (entryStore m (val ve)) \<and>
        Votes_abs (votesStore m (votes (entryStore m (val ve)))) i = Some (VCpu v) \<and> isTimeInRange v now}"
    if "umap_find (mSessions m) s = Some ve" for s ve
    using STM_wfD [OF wf that] by (auto simp: session_ok_def Let_def ptr_clamps_def clamps_in_force_abs)
  ultimately show ?thesis by (fastforce simp: task_clamps_def STM_abs_def)
qed

lemma getTaskVoteRange_get:
  "STM_getTaskVoteRange t now UclampRange_default b k m =
     fold (session_confine m now b k) (task_get (mTasks m) t) UclampRange_default"
  by (simp add: STM_getTaskVoteRange_def task_get_def split: option.splits)

lemma fold_max_Max:
  "fold (\<lambda>x mx. max mx (g x)) xs a = Max (insert a (g ` set xs))" for a :: int
  by (induction xs arbitrary: a) (auto simp: Max_insert_max insert_commute simp del: Max_insert)

lemma STM_abs_entries:
  assumes "STM_wf m"
  shows "(s, ve) \<in> set (mSessions m) \<longleftrightarrow> umap_find (mSessions m) s = Some ve"
  using assms umap_find_in_set [of "mSessions m"] by (auto simp: STM_wf_def)

lemma getSessionsGpuCapacity_Max:
  assumes wf: "STM_wf m"
  shows "STM_getSessionsGpuCapacity t m =
    Max (insert 0 {c. \<exists>s vs. STM_votes m s = Some vs \<and> getGpuCapacityRequest vs t = Some c})"
proof -
  let ?v = "\<lambda>ve. votesStore m (votes (entryStore m (val ve)))"
  let ?g = "\<lambda>(s, ve). case getGpuCapacityRequest (?v ve) t of None \<Rightarrow> 0 | Some c \<Rightarrow> c"
  have "STM_getSessionsGpuCapacity t m = Max (insert 0 (?g ` set (mSessions m)))"
    unfolding STM_getSessionsGpuCapacity_def fold_max_Max [symmetric]
    by (simp add: case_prod_unfold)
  also have "insert 0 (?g ` set (mSessions m)) =
      insert 0 {c. \<exists>s vs. STM_votes m s = Some vs \<and> getGpuCapacityRequest vs t = Some c}"
    by (force simp: image_iff STM_votes_def STM_abs_def Bex_def STM_abs_entries [OF wf]
        split: option.splits)
  finally show ?thesis .
qed

lemma isAnyAppSessionActive_abs:
  assumes wf: "STM_wf m"
  shows "STM_isAnyAppSessionActive t m \<longleftrightarrow>
    (\<exists>s e ts i v. STM_abs m s = Some (e, ts) \<and> isAppSession e \<and> isActive e \<and>
       Votes_abs (votesStore m (votes e)) i = Some v \<and> vote_in_force t v)"
proof -
  have "Votes_wf (votesStore m (votes (entryStore m (val ve))))"
    if "umap_find (mSessions m) s = Some ve" for s ve
    using STM_wfD [OF wf that] by (simp add: session_ok_def Let_def)
  then show ?thesis
    by (fastforce simp: STM_isAnyAppSessionActive_def list_ex_iff Bex_def STM_abs_entries [OF wf]
        STM_abs_def Let_def dest: in_force_abs)
qed

section \<open>The contract a session manager relies on\<close>

text \<open>
  What the session manager needs of the map: the three operations on the map it stands
  for, and that the sessions reported for a thread are those whose list has the thread.
  The manager creates a session with no threads and links them afterwards, and unlinks
  all threads before it removes a session; the lemmas are about those sequences.
\<close>

locale session_map =
  fixes wf :: "'m \<Rightarrow> bool"
    and content :: "'m \<Rightarrow> sid \<rightharpoonup> 'e \<times> tid list"
    and fresh :: "'m \<Rightarrow> 'e \<Rightarrow> bool"
    and tag :: "sid \<Rightarrow> 'e \<Rightarrow> 'e"
    and add :: "sid \<Rightarrow> 'e \<Rightarrow> tid list \<Rightarrow> 'm \<Rightarrow> 'm"
    and remove :: "sid \<Rightarrow> 'm \<Rightarrow> 'm"
    and link :: "sid \<Rightarrow> tid list \<Rightarrow> 'm \<Rightarrow> 'm"
    and sessions_of :: "tid \<Rightarrow> 'm \<Rightarrow> sid list"
  assumes wf_add: "wf m \<Longrightarrow> fresh m e \<Longrightarrow> wf (add s e ts m)"
    and wf_remove: "wf m \<Longrightarrow> wf (remove s m)"
    and wf_link: "wf m \<Longrightarrow> wf (link s ts m)"
    and content_add: "wf m \<Longrightarrow> content (add s e ts m) =
      (if s \<in> dom (content m) then content m else (content m)(s \<mapsto> (tag s e, ts)))"
    and content_remove: "wf m \<Longrightarrow> content (remove s m) = (content m)(s := None)"
    and content_link: "wf m \<Longrightarrow> content (link s ts m) =
      (content m)(s := map_option (\<lambda>(e, _). (e, ts)) (content m s))"
    and sessions_of_count: "wf m \<Longrightarrow> count_list (sessions_of t m) s =
      (case content m s of None \<Rightarrow> 0 | Some (e, ts) \<Rightarrow> count_list ts t)"
begin

lemma sessions_of_member:
  assumes "wf m"
  shows "s \<in> set (sessions_of t m) \<longleftrightarrow> (\<exists>e ts. content m s = Some (e, ts) \<and> t \<in> set ts)"
  by (auto simp: set_count_list sessions_of_count [OF assms] split: option.splits)

lemma create_then_link:
  assumes "wf m" and "fresh m e" and "content m s = None"
  shows "wf (link s ts (add s e [] m))"
    and "content (link s ts (add s e [] m)) = (content m)(s \<mapsto> (tag s e, ts))"
  using assms by (simp_all add: wf_link wf_add content_link content_add domIff)

lemma unlink_then_remove:
  assumes "wf m"
  shows "wf (remove s (link s [] m))"
    and "content (remove s (link s [] m)) = (content m)(s := None)"
    and "s \<notin> set (sessions_of t (remove s (link s [] m)))"
    and "s' \<noteq> s \<Longrightarrow> count_list (sessions_of t (remove s (link s [] m))) s' =
      count_list (sessions_of t m) s'"
  using assms
  by (simp_all add: wf_remove wf_link content_remove content_link sessions_of_member sessions_of_count)

end

interpretation stm: session_map STM_wf STM_abs fresh_entry "\<lambda>s e. e\<lparr>sessionId := s\<rparr>"
  "\<lambda>s e ts m. snd (STM_add s e ts m)" "\<lambda>s m. snd (STM_remove s m)" STM_replaced STM_getSessionIds
  by unfold_locales
    (simp_all add: STM_add_wf STM_remove_wf STM_replace_wf STM_abs_add STM_abs_replace count_sessions)

section \<open>Properties\<close>

text \<open>
  C3: The two maps of \<open>SessionTaskMap\<close> implement one map from session to its value and
  its linked threads, and its operations are operations on that map: \<open>add\<close> refuses a
  session that exists and otherwise stores it under its own identifier, \<open>remove\<close> deletes
  and reports whether there was one, \<open>replace\<close> changes nothing but the list of threads,
  and writing through the pointer \<open>findSession\<close> returns changes that session alone.
\<close>
theorem STM_refine_map:
  assumes "STM_wf m"
  shows "STM_abs (snd (STM_add s sv ts m)) =
      (if s \<in> dom (STM_abs m) then STM_abs m else (STM_abs m)(s \<mapsto> (sv\<lparr>sessionId := s\<rparr>, ts)))
    \<and> (fst (STM_add s sv ts m) \<longleftrightarrow> s \<notin> dom (STM_abs m))
    \<and> STM_abs (snd (STM_remove s m)) = (STM_abs m)(s := None)
    \<and> (fst (STM_remove s m) \<longleftrightarrow> s \<in> dom (STM_abs m))
    \<and> STM_abs (STM_replaced s ts m) = (STM_abs m)(s := map_option (\<lambda>(e, _). (e, ts)) (STM_abs m s))
    \<and> STM_abs (STM_write_entry s f m) =
      (STM_abs m)(s := map_option (\<lambda>(e, us). (f e, us)) (STM_abs m s))"
  using assms
  by (simp add: STM_abs_add STM_add_result STM_remove_result STM_abs_replace STM_write_entry_abs)

lemma sample_map_wf: "STM_wf sample_map"
proof -
  have "STM_wf (STM_init\<lparr>nextAddr := 2\<rparr>)"
    by (simp add: STM_wf_def STM_init_def task_get_def STM_abs_def)
  then have wf: "STM_wf (snd (STM_add 1 (sample_entry 0) [7, 8] (STM_init\<lparr>nextAddr := 2\<rparr>)))"
    by (rule STM_add_wf) (simp add: fresh_entry_def sample_entry_def STM_init_def STM_abs_def)
  have "STM_wf (snd (STM_add 2 (sample_entry 1) [7, 7, 9]
      (snd (STM_add 1 (sample_entry 0) [7, 8] (STM_init\<lparr>nextAddr := 2\<rparr>)))))"
    by (rule STM_add_wf [OF wf])
      (simp add: fresh_entry_def sample_entry_def STM_init_def STM_abs_def STM_add_def Let_def)
  then show ?thesis
    unfolding sample_map_def STM_addVote_write
    by (intro STM_write_votes_wf Votes_wf_addCpu)
qed

theorem STM_refine_map_witness:
  "STM_wf sample_map \<and> \<not> fst (STM_add 1 (sample_entry 1) [5] sample_map)
   \<and> fst (STM_remove 1 sample_map) \<and> STM_abs (snd (STM_remove 1 sample_map)) 1 = None"
proof -
  have "STM_findSession 1 sample_map = Some 2" by code_simp
  then have "1 \<in> dom (STM_abs sample_map)" by (auto simp: STM_findSession_def STM_abs_def)
  with sample_map_wf STM_refine_map [OF sample_map_wf, of 1 "sample_entry 1" "[5]"]
  show ?thesis by simp
qed

text \<open>
  C6: Every operation keeps the representation invariant \<open>STM_wf\<close>, in particular that
  \<open>mSessions\<close> and \<open>mTasks\<close> agree. \<open>add\<close> needs its value to own its votes object; a dead
  thread is dropped by \<open>removeDeadTaskSessionMap\<close> together with the erasure of that
  position of the session's list.
\<close>
theorem STM_wf_preserved:
  assumes "STM_wf m"
  shows "(fresh_entry m sv \<longrightarrow> STM_wf (snd (STM_add s sv ts m)))
    \<and> STM_wf (snd (STM_remove s m)) \<and> STM_wf (STM_replaced s ts m)
    \<and> STM_wf (STM_addVote s i lo hi t d m) \<and> STM_wf (STM_addGpuVote s i c t d m)
    \<and> (\<forall>e us k. STM_abs m s = Some (e, us) \<and> k < length us \<longrightarrow>
        STM_wf (STM_erase_linked s k (snd (STM_removeDeadTaskSessionMap s (us ! k) m))))"
  using assms
  by (simp add: STM_add_wf STM_remove_wf STM_replace_wf STM_addVote_write STM_addGpuVote_write
      STM_write_votes_wf Votes_wf_ops drop_dead_wf)

theorem STM_wf_preserved_witness:
  "STM_wf sample_map \<and> STM_wf (snd (STM_remove 1 sample_map))
   \<and> STM_wf (STM_erase_linked 2 1 (snd (STM_removeDeadTaskSessionMap 2 7 sample_map)))"
proof -
  have "STM_getTaskIds 2 sample_map = [7, 7, 9]" by code_simp
  then obtain e where "STM_abs sample_map 2 = Some (e, [7, 7, 9])"
    by (auto simp: STM_getTaskIds_def STM_abs_def split: option.splits)
  then have "STM_wf (STM_erase_linked 2 1 (snd (STM_removeDeadTaskSessionMap 2 ([7, 7, 9] ! 1) sample_map)))"
    by (intro STM_wf_preserved [OF sample_map_wf, THEN conjunct2, THEN conjunct2, THEN conjunct2,
          THEN conjunct2, THEN conjunct2, rule_format, of 2 e]) simp
  with sample_map_wf STM_wf_preserved [OF sample_map_wf, THEN conjunct2, THEN conjunct1]
  show ?thesis by simp
qed

text \<open>
  The two directions agree with multiplicity: \<open>getSessionIds\<close> of a thread lists a
  session as often as \<open>getTaskIds\<close> of that session lists the thread. So a thread's
  reference count, as the dump prints it, is the number of links to it.
\<close>
theorem getSessionIds_getTaskIds:
  assumes "STM_wf m"
  shows "count_list (STM_getSessionIds t m) s = count_list (STM_getTaskIds s m) t"
  by (auto simp: count_sessions [OF assms] STM_getTaskIds_def STM_abs_def split: option.splits)

theorem getSessionIds_getTaskIds_witness:
  "STM_wf sample_map \<and> count_list (STM_getSessionIds 7 sample_map) 2 = 2
   \<and> count_list (STM_getTaskIds 2 sample_map) 7 = 2"
proof -
  have "count_list (STM_getTaskIds 2 sample_map) 7 = 2" by code_simp
  with sample_map_wf getSessionIds_getTaskIds [OF sample_map_wf, of 7 2] show ?thesis by simp
qed

text \<open>
  \<open>replace\<close> reports as added exactly the new threads no session was linked to before,
  and as removed exactly the old threads that are not among the new ones and that no other
  session is linked to. These are the threads whose scheduling group has to change.
\<close>
theorem STM_replace_reports:
  assumes wf: "STM_wf m" and s: "STM_abs m s = Some (e, us)"
    and r: "STM_replace s ts m = (ok, added, removed, m')"
  shows "ok \<and> (\<forall>t. t \<in> set added \<longleftrightarrow>
        t \<in> set ts \<and> (\<forall>s' e' us'. STM_abs m s' = Some (e', us') \<longrightarrow> t \<notin> set us'))
    \<and> (\<forall>t. t \<in> set removed \<longleftrightarrow> t \<in> set us \<and> t \<notin> set ts \<and>
        (\<forall>s' e' us'. s' \<noteq> s \<and> STM_abs m s' = Some (e', us') \<longrightarrow> t \<notin> set us'))"
proof -
  obtain ve where ve: "umap_find (mSessions m) s = Some ve" and us: "us = linkedTasks ve"
    using s by (auto simp: STM_abs_def)
  have m': "m' = STM_replaced s ts m" by (simp add: r)
  have parts: "ok" "added = filter (\<lambda>t. umap_find (mTasks m) t = None) ts"
      "removed = filter (\<lambda>t. umap_find (mTasks m') t = None) us"
    using r by (auto simp: STM_replace_Some [OF ve] Let_def us)
  have "umap_find (mTasks m') t = None \<longleftrightarrow> t \<notin> set ts \<and>
      (\<forall>s' e' us'. s' \<noteq> s \<and> STM_abs m s' = Some (e', us') \<longrightarrow> t \<notin> set us')" for t
    using s unfolding m' task_find_iff_linked [OF STM_replace_wf [OF wf]] STM_abs_replace [OF wf]
    by auto
  then show ?thesis
    using task_find_iff_linked [OF wf] by (simp add: parts)
qed

theorem STM_replace_reports_witness:
  "\<exists>m'. STM_wf sample_map \<and> STM_replace 2 [8, 10] sample_map = (True, [10], [9], m')"
proof -
  obtain ok added removed m' where r: "STM_replace 2 [8, 10] sample_map = (ok, added, removed, m')"
    by (metis prod_cases4)
  have "STM_getTaskIds 2 sample_map = [7, 7, 9]" by code_simp
  then obtain e where "STM_abs sample_map 2 = Some (e, [7, 7, 9])"
    by (auto simp: STM_getTaskIds_def STM_abs_def split: option.splits)
  note ok = STM_replace_reports [OF sample_map_wf this r]
  have "(fst (snd (STM_replace 2 [8, 10] sample_map)), fst (snd (snd (STM_replace 2 [8, 10] sample_map)))) =
      ([10], [9])"
    by code_simp
  with ok r sample_map_wf show ?thesis by auto
qed

text \<open>
  C12: \<open>getTaskVoteRange\<close> of a thread: the lower clamp is the largest lower clamp of all CPU
  votes in force of the active sessions linked to the thread (0 if there is none). The
  upper clamp never exceeds the smallest upper clamp of those votes, and equals it when no
  power-efficiency limit is configured. With a limit, an active power-efficient session
  whose votes have all timed out caps the upper clamp at that limit.
\<close>
theorem getTaskVoteRange_clamps:
  assumes wf: "STM_wf m" and r: "r = STM_getTaskVoteRange t now UclampRange_default effBase effOffset m"
  shows "uclampMin r = Max (insert kUclampMin (task_clamps uclampMin m t now))
    \<and> uclampMax r \<le> Min (insert kUclampMax (task_clamps uclampMax m t now))
    \<and> (effBase = None \<longrightarrow> uclampMax r = Min (insert kUclampMax (task_clamps uclampMax m t now)))
    \<and> (\<forall>s e ts base. STM_abs m s = Some (e, ts) \<and> t \<in> set ts \<and> isActive e \<and> isPowerEfficient e \<and>
        effBase = Some base \<and> allTimedOut (votesStore m (votes e)) now \<longrightarrow> uclampMax r \<le> base)"
proof (intro conjI allI impI)
  note get = r [unfolded getTaskVoteRange_get]
  show "uclampMin r = Max (insert kUclampMin (task_clamps uclampMin m t now))"
    by (simp add: get fold_session_confine_min task_clamps_ptr [OF wf] UclampRange_default_def)
  show "uclampMax r \<le> Min (insert kUclampMax (task_clamps uclampMax m t now))"
    unfolding get task_clamps_ptr [OF wf, symmetric]
    by (rule order.trans [OF fold_session_confine_le]) (simp add: UclampRange_default_def del: Min_insert)
  show "uclampMax r = Min (insert kUclampMax (task_clamps uclampMax m t now))" if "effBase = None"
    using that by (simp add: get fold_session_confine_max task_clamps_ptr [OF wf] UclampRange_default_def)
  fix s e ts base
  assume s: "STM_abs m s = Some (e, ts) \<and> t \<in> set ts \<and> isActive e \<and> isPowerEfficient e \<and>
        effBase = Some base \<and> allTimedOut (votesStore m (votes e)) now"
  then obtain ve where ve: "umap_find (mSessions m) s = Some ve" "e = entryStore m (val ve)"
      "ts = linkedTasks ve"
    by (auto simp: STM_abs_def)
  with s STM_wfD [OF wf ve(1)] have "val ve \<in> set (task_get (mTasks m) t)"
    by (simp add: session_ok_def Let_def set_count_list)
  with s ve show "uclampMax r \<le> base"
    unfolding get by (auto intro: fold_session_confine_idle)
qed

theorem getTaskVoteRange_clamps_witness:
  "STM_wf sample_map
   \<and> STM_getTaskVoteRange 7 10 UclampRange_default None 0 sample_map = \<lparr>uclampMin = 600, uclampMax = 900\<rparr>
   \<and> Max (insert kUclampMin (task_clamps uclampMin sample_map 7 10)) = 600"
proof -
  have "STM_getTaskVoteRange 7 10 UclampRange_default None 0 sample_map =
      \<lparr>uclampMin = 600, uclampMax = 900\<rparr>"
    by code_simp
  with getTaskVoteRange_clamps [OF sample_map_wf refl, of 7 10 None 0] sample_map_wf
  show ?thesis by simp
qed

text \<open>
  C29: What the manager reads off all sessions. The GPU capacity requested is the largest
  request of any session, paused or not (0 if there is none). An application session
  counts as active exactly when it is not paused and some vote of it is in force.
\<close>
theorem session_totals:
  assumes "STM_wf m"
  shows "STM_getSessionsGpuCapacity now m =
      Max (insert 0 {c. \<exists>s vs. STM_votes m s = Some vs \<and> getGpuCapacityRequest vs now = Some c})
    \<and> (STM_isAnyAppSessionActive now m \<longleftrightarrow>
      (\<exists>s e ts i v. STM_abs m s = Some (e, ts) \<and> isAppSession e \<and> isActive e \<and>
         Votes_abs (votesStore m (votes e)) i = Some v \<and> vote_in_force now v))"
  using assms by (intro conjI getSessionsGpuCapacity_Max isAnyAppSessionActive_abs)

theorem session_totals_witness:
  "STM_wf sample_map \<and> STM_isAnyAppSessionActive 10 sample_map
   \<and> (\<exists>s e ts i v. STM_abs sample_map s = Some (e, ts) \<and> isAppSession e \<and> isActive e \<and>
         Votes_abs (votesStore sample_map (votes e)) i = Some v \<and> vote_in_force 10 v)"
proof -
  have "STM_isAnyAppSessionActive 10 sample_map" by code_simp
  with session_totals [OF sample_map_wf, of 10] sample_map_wf show ?thesis by simp
qed

end
