(* ===== verification/BackgroundWorker.thy ===== *)
theory BackgroundWorker
  imports Prelude "HOL-Library.Multiset"
begin

text \<open>
  \<^verbatim>\<open>power-libperfmgr/aidl/BackgroundWorker.{h,cpp}\<close>: work packages that run at a deadline.

  \<open>PriorityQueueWorkerPool\<close> holds a priority queue of (deadline, worker, package id)
  entries that its threads wait on; \<open>TemplatePriorityQueueWorker\<close> keeps the packages
  themselves under their ids. The standard priority queue leaves the order of equal
  deadlines open. The model inserts into a sorted list, and the proofs about it go through
  the locale \<open>deadline_queue\<close>, which only says that \<open>top\<close> is an entry of least deadline.

  Two step relations interleave what the code runs under separate lock sections:
  \<open>pool_step\<close> the threads of a pool, with the two ways \<open>wait_until\<close> returns, and
  \<open>sched_step\<close> the two halves of \<open>TemplatePriorityQueueWorker::schedule\<close>, which adds the
  package under the lock but reads the id counter after releasing it.
\<close>

section \<open>Definitions\<close>

subsection \<open>The pool\<close>

record Package =
  deadline :: time
  templateQueueWorkerId :: int
  packageId :: int

record 'cb PriorityQueueWorkerPool =
  mRunning :: bool
  mPackageQueue :: "Package list"
  mCallbackMap :: "(int, 'cb) umap"

text \<open>\<open>Package::operator<\<close> orders the queue by earliest deadline.\<close>

fun queue_push :: "Package \<Rightarrow> Package list \<Rightarrow> Package list" where
  "queue_push p [] = [p]"
| "queue_push p (q # qs) = (if deadline q \<le> deadline p then q # queue_push p qs else p # q # qs)"

definition Pool_init :: "'cb PriorityQueueWorkerPool" where
  "Pool_init = \<lparr>mRunning = True, mPackageQueue = [], mCallbackMap = []\<rparr>"

definition Pool_stop :: "'cb PriorityQueueWorkerPool \<Rightarrow> 'cb PriorityQueueWorkerPool" where
  "Pool_stop pool = pool\<lparr>mRunning := False\<rparr>"

definition Pool_addCallback ::
  "int \<Rightarrow> 'cb option \<Rightarrow> 'cb PriorityQueueWorkerPool \<Rightarrow> 'cb PriorityQueueWorkerPool" where
  "Pool_addCallback wid callback pool =
     (case callback of
        None \<Rightarrow> pool
      | Some cb \<Rightarrow>
          if umap_find (mCallbackMap pool) wid \<noteq> None then pool
          else pool\<lparr>mCallbackMap := umap_set wid cb (mCallbackMap pool)\<rparr>)"

definition Pool_removeCallback ::
  "int \<Rightarrow> 'cb PriorityQueueWorkerPool \<Rightarrow> 'cb PriorityQueueWorkerPool" where
  "Pool_removeCallback wid pool =
     (if umap_find (mCallbackMap pool) wid = None then pool
      else pool\<lparr>mCallbackMap := umap_erase wid (mCallbackMap pool)\<rparr>)"

definition Pool_schedule ::
  "int \<Rightarrow> int \<Rightarrow> time \<Rightarrow> 'cb PriorityQueueWorkerPool \<Rightarrow> 'cb PriorityQueueWorkerPool" where
  "Pool_schedule wid pid t pool =
     pool\<lparr>mPackageQueue :=
       queue_push \<lparr>deadline = t, templateQueueWorkerId = wid, packageId = pid\<rparr> (mPackageQueue pool)\<rparr>"

text \<open>\<open>loop\<close>: the deadline it waits for, the predicate it waits on, and what it does once
  the wait returns.\<close>

definition kTimeMax :: time where
  "kTimeMax = 2 ^ 63 - 1"

definition loop_deadline :: "'cb PriorityQueueWorkerPool \<Rightarrow> time" where
  "loop_deadline pool =
     (case mPackageQueue pool of [] \<Rightarrow> kTimeMax | p # _ \<Rightarrow> deadline p)"

definition loop_pred :: "'cb PriorityQueueWorkerPool \<Rightarrow> time \<Rightarrow> bool" where
  "loop_pred pool now \<longleftrightarrow>
     (if \<not> mRunning pool then True
      else case mPackageQueue pool of
        [] \<Rightarrow> False
      | p # _ \<Rightarrow> \<not> deadline p > now)"

datatype loop_result = LBreak | LContinue | LRun Package

definition loop_take ::
  "'cb PriorityQueueWorkerPool \<Rightarrow> loop_result \<times> 'cb PriorityQueueWorkerPool" where
  "loop_take pool =
     (if \<not> mRunning pool then (LBreak, pool)
      else case mPackageQueue pool of
        [] \<Rightarrow> (LContinue, pool)
      | p # ps \<Rightarrow> (LRun p, pool\<lparr>mPackageQueue := ps\<rparr>))"

definition loop_callback :: "'cb PriorityQueueWorkerPool \<Rightarrow> Package \<Rightarrow> 'cb option" where
  "loop_callback pool p = umap_find (mCallbackMap pool) (templateQueueWorkerId p)"

subsection \<open>The templated worker\<close>

record 'p TemplatePriorityQueueWorker =
  mCallbackId :: int
  mPackageIdCounter :: int
  mPackages :: "(int, 'p) umap"

definition Worker_init :: "int \<Rightarrow> 'p TemplatePriorityQueueWorker" where
  "Worker_init this = \<lparr>mCallbackId = this, mPackageIdCounter = 0, mPackages = []\<rparr>"

text \<open>
  \<open>schedule\<close> in its two halves: the section under the worker's lock (\<open>emplace\<close> keeps an
  existing entry), and the call that posts the counter's value to the pool.
\<close>

definition Worker_emplace ::
  "'p \<Rightarrow> 'p TemplatePriorityQueueWorker \<Rightarrow> 'p TemplatePriorityQueueWorker" where
  "Worker_emplace p w =
     (let c = mPackageIdCounter w + 1 in
      w\<lparr>mPackageIdCounter := c,
        mPackages := (if umap_find (mPackages w) c = None then umap_set c p (mPackages w)
                      else mPackages w)\<rparr>)"

definition Worker_post ::
  "time \<Rightarrow> 'p TemplatePriorityQueueWorker \<Rightarrow> 'cb PriorityQueueWorkerPool
     \<Rightarrow> 'cb PriorityQueueWorkerPool" where
  "Worker_post t w pool = Pool_schedule (mCallbackId w) (mPackageIdCounter w) t pool"

definition Worker_schedule ::
  "'p \<Rightarrow> time \<Rightarrow> 'p TemplatePriorityQueueWorker \<times> 'cb PriorityQueueWorkerPool
     \<Rightarrow> 'p TemplatePriorityQueueWorker \<times> 'cb PriorityQueueWorkerPool" where
  "Worker_schedule p t = (\<lambda>(w, pool).
     let w' = Worker_emplace p w in (w', Worker_post t w' pool))"

definition Worker_process ::
  "int \<Rightarrow> 'p TemplatePriorityQueueWorker \<Rightarrow> 'p option \<times> 'p TemplatePriorityQueueWorker" where
  "Worker_process pid w =
     (case umap_find (mPackages w) pid of
        None \<Rightarrow> (None, w)
      | Some p \<Rightarrow> (Some p, w\<lparr>mPackages := umap_erase pid (mPackages w)\<rparr>))"

text \<open>
  One turn of the loop on a pool whose callback is the worker's \<open>process\<close>: the package
  handed to the user's callback, if any.
\<close>

definition Worker_fire ::
  "'p TemplatePriorityQueueWorker \<times> 'cb PriorityQueueWorkerPool
     \<Rightarrow> 'p option \<times> 'p TemplatePriorityQueueWorker \<times> 'cb PriorityQueueWorkerPool" where
  "Worker_fire = (\<lambda>(w, pool).
     case loop_take pool of
       (LRun e, pool') \<Rightarrow>
         (case loop_callback pool' e of
            None \<Rightarrow> (None, w, pool')
          | Some _ \<Rightarrow> let (p, w') = Worker_process (packageId e) w in (p, w', pool'))
     | (_, pool') \<Rightarrow> (None, w, pool'))"

subsection \<open>Interleaving\<close>

text \<open>
  A thread of the pool evaluates the predicate, waits for the deadline it read, or runs a
  package. \<open>posted\<close> records the packages put into the queue, and \<open>fired\<close> those taken from it
  with the time they were taken.
\<close>

datatype thread_state = Checking | Waiting time | Running Package | Exited

record 'cb pool_sys =
  pool :: "'cb PriorityQueueWorkerPool"
  clock :: time
  threads :: "thread_state list"
  posted :: "Package list"
  fired :: "(Package \<times> time) list"

definition take_package :: "nat \<Rightarrow> 'cb pool_sys \<Rightarrow> 'cb pool_sys" where
  "take_package i s =
     (case loop_take (pool s) of
        (LBreak, p') \<Rightarrow> s\<lparr>pool := p', threads := (threads s)[i := Exited]\<rparr>
      | (LContinue, p') \<Rightarrow> s\<lparr>pool := p', threads := (threads s)[i := Checking]\<rparr>
      | (LRun e, p') \<Rightarrow> s\<lparr>pool := p', threads := (threads s)[i := Running e],
                          fired := fired s @ [(e, clock s)]\<rparr>)"

text \<open>
  \<open>wait_until\<close> re-evaluates the predicate after a wake-up (\<open>wake\<close>); on a timeout it
  returns whatever the predicate says (\<open>timeout\<close>), and the loop goes on to take a package.
  A deadline is a \<open>time_point\<close>, so it is at most \<open>time_point::max()\<close>.
\<close>

inductive pool_step :: "'cb pool_sys \<Rightarrow> 'cb pool_sys \<Rightarrow> bool" where
  tick: "clock s \<le> t \<Longrightarrow> pool_step s (s\<lparr>clock := t\<rparr>)"
| post: "t \<le> kTimeMax \<Longrightarrow> pool_step s (s\<lparr>pool := Pool_schedule wid pid t (pool s),
    posted := posted s @ [\<lparr>deadline = t, templateQueueWorkerId = wid, packageId = pid\<rparr>]\<rparr>)"
| stop: "pool_step s (s\<lparr>pool := Pool_stop (pool s)\<rparr>)"
| ready: "i < length (threads s) \<Longrightarrow> threads s ! i = Checking \<Longrightarrow> loop_pred (pool s) (clock s)
    \<Longrightarrow> pool_step s (take_package i s)"
| sleep: "i < length (threads s) \<Longrightarrow> threads s ! i = Checking \<Longrightarrow> \<not> loop_pred (pool s) (clock s)
    \<Longrightarrow> pool_step s (s\<lparr>threads := (threads s)[i := Waiting (loop_deadline (pool s))]\<rparr>)"
| wake: "i < length (threads s) \<Longrightarrow> threads s ! i = Waiting d
    \<Longrightarrow> pool_step s (s\<lparr>threads := (threads s)[i := Checking]\<rparr>)"
| timeout: "i < length (threads s) \<Longrightarrow> threads s ! i = Waiting d \<Longrightarrow> d \<le> clock s
    \<Longrightarrow> pool_step s (take_package i s)"
| finish: "i < length (threads s) \<Longrightarrow> threads s ! i = Running e
    \<Longrightarrow> pool_step s (s\<lparr>threads := (threads s)[i := Checking]\<rparr>)"

definition pool_start :: "nat \<Rightarrow> 'cb pool_sys" where
  "pool_start threadCount =
     \<lparr>pool = Pool_init, clock = 0, threads = replicate threadCount Checking,
      posted = [], fired = []\<rparr>"

text \<open>A pool with one package, due at once, for the examples.\<close>

definition sample_package :: Package where
  "sample_package = \<lparr>deadline = 0, templateQueueWorkerId = 0, packageId = 1\<rparr>"

definition sample_posted :: "nat \<Rightarrow> unit pool_sys" where
  "sample_posted n =
     (let s = pool_start n
      in s\<lparr>pool := Pool_schedule 0 1 0 (pool s), posted := posted s @ [sample_package]\<rparr>)"

text \<open>
  Callers of \<open>TemplatePriorityQueueWorker::schedule\<close> against one worker: \<open>inflight\<close> are the
  deadlines of the calls that have released the worker's lock and not yet posted.
\<close>

record 'p sched_sys =
  worker :: "'p TemplatePriorityQueueWorker"
  wpool :: "unit PriorityQueueWorkerPool"
  inflight :: "time list"

inductive sched_step :: "'p sched_sys \<Rightarrow> 'p sched_sys \<Rightarrow> bool" where
  emplace: "sched_step s (s\<lparr>worker := Worker_emplace p (worker s), inflight := inflight s @ [t]\<rparr>)"
| post: "i < length (inflight s) \<Longrightarrow>
    sched_step s (s\<lparr>wpool := Worker_post (inflight s ! i) (worker s) (wpool s),
                    inflight := take i (inflight s) @ drop (Suc i) (inflight s)\<rparr>)"
| fire: "Worker_fire (worker s, wpool s) = (p, w', pool') \<Longrightarrow>
    sched_step s (s\<lparr>worker := w', wpool := pool'\<rparr>)"

definition sched_start :: "int \<Rightarrow> 'p sched_sys" where
  "sched_start this =
     \<lparr>worker = Worker_init this, wpool = Pool_addCallback this (Some ()) Pool_init, inflight = []\<rparr>"

subsection \<open>Specification\<close>

text \<open>The packages that wait for their deadline, with that deadline.\<close>

definition worker_pending ::
  "'p TemplatePriorityQueueWorker \<Rightarrow> 'cb PriorityQueueWorkerPool \<Rightarrow> (time \<times> 'p) multiset" where
  "worker_pending w pl =
     image_mset (\<lambda>e. (deadline e, the (umap_find (mPackages w) (packageId e)))) (mset (mPackageQueue pl))"

text \<open>
  The worker is the pool's only one: its callback is registered, every entry is its own,
  no id is queued twice, and exactly the queued ids have a package.
\<close>

definition worker_inv ::
  "'p TemplatePriorityQueueWorker \<times> 'cb PriorityQueueWorkerPool \<Rightarrow> bool" where
  "worker_inv = (\<lambda>(w, pl).
     mRunning pl \<and> umap_wf (mPackages w) \<and> sorted (map deadline (mPackageQueue pl))
     \<and> umap_find (mCallbackMap pl) (mCallbackId w) \<noteq> None
     \<and> (\<forall>e \<in> set (mPackageQueue pl). templateQueueWorkerId e = mCallbackId w)
     \<and> distinct (map packageId (mPackageQueue pl))
     \<and> (\<forall>i. umap_find (mPackages w) i = None \<longleftrightarrow> i \<notin> packageId ` set (mPackageQueue pl))
     \<and> (\<forall>e \<in> set (mPackageQueue pl). packageId e \<le> mPackageIdCounter w))"

text \<open>Every package posted is either still queued or has been taken, once.\<close>

definition pool_inv :: "'cb pool_sys \<Rightarrow> bool" where
  "pool_inv s \<longleftrightarrow>
     sorted (map deadline (mPackageQueue (pool s)))
     \<and> mset (posted s) = mset (mPackageQueue (pool s)) + mset (map fst (fired s))"

text \<open>A lone thread that waits has not slept past the queue's earliest deadline, and it has
  taken no package early.\<close>

definition lone_inv :: "'cb pool_sys \<Rightarrow> bool" where
  "lone_inv s \<longleftrightarrow>
     length (threads s) = 1
     \<and> (\<forall>d. threads s ! 0 = Waiting d \<longrightarrow> loop_deadline (pool s) \<le> d)
     \<and> (\<forall>(p, t) \<in> set (fired s). deadline p \<le> t)"

text \<open>A package whose id is not queued and is no longer the counter's value.\<close>

definition stranded :: "int \<Rightarrow> 'p \<Rightarrow> 'p sched_sys \<Rightarrow> bool" where
  "stranded pid p s \<longleftrightarrow>
     umap_find (mPackages (worker s)) pid = Some p \<and> pid < mPackageIdCounter (worker s)
     \<and> (\<forall>e \<in> set (mPackageQueue (wpool s)). packageId e \<noteq> pid)"

section \<open>The queue\<close>

locale deadline_queue =
  fixes prio :: "'e \<Rightarrow> time"
    and ok :: "'q \<Rightarrow> bool"
    and elems :: "'q \<Rightarrow> 'e multiset"
    and push :: "'e \<Rightarrow> 'q \<Rightarrow> 'q"
    and top :: "'q \<Rightarrow> 'e"
    and pop :: "'q \<Rightarrow> 'q"
  assumes ok_push: "ok q \<Longrightarrow> ok (push e q)"
    and ok_pop: "ok q \<Longrightarrow> elems q \<noteq> {#} \<Longrightarrow> ok (pop q)"
    and elems_push: "elems (push e q) = add_mset e (elems q)"
    and elems_pop: "elems q \<noteq> {#} \<Longrightarrow> elems (pop q) = elems q - {#top q#}"
    and top_in: "elems q \<noteq> {#} \<Longrightarrow> top q \<in># elems q"
    and top_least: "ok q \<Longrightarrow> e \<in># elems q \<Longrightarrow> prio (top q) \<le> prio e"
begin

lemma top_antimono:
  assumes "ok q'" and "elems q \<subseteq># elems q'" and "elems q \<noteq> {#}"
  shows "prio (top q') \<le> prio (top q)"
  using assms(1) mset_subset_eqD [OF assms(2) top_in [OF assms(3)]] by (rule top_least)

lemma top_push:
  assumes "ok q"
  shows "prio (top (push e q)) = (if elems q = {#} then prio e else min (prio e) (prio (top q)))"
proof -
  have in_push: "top (push e q) \<in># add_mset e (elems q)"
    using top_in [of "push e q"] by (simp add: elems_push)
  have le: "prio (top (push e q)) \<le> prio x" if "x \<in># add_mset e (elems q)" for x
    using that top_least [OF ok_push [OF assms]] by (simp add: elems_push)
  show ?thesis
  proof (cases "elems q = {#}")
    case False
    then have "prio (top (push e q)) \<le> min (prio e) (prio (top q))"
      using le [of e] le [of "top q"] top_in [OF False] by simp
    moreover have "min (prio e) (prio (top q)) \<le> prio (top (push e q))"
      using in_push top_least [OF assms] by (auto simp: min_le_iff_disj)
    ultimately have "prio (top (push e q)) = min (prio e) (prio (top q))" by (rule antisym)
    with False show ?thesis by simp
  qed (use in_push in auto)
qed

lemma pop_remaining: "elems q \<noteq> {#} \<Longrightarrow> add_mset (top q) (elems (pop q)) = elems q"
  using top_in [of q] by (simp add: elems_pop)

end

lemma mset_queue_push: "mset (queue_push p q) = add_mset p (mset q)"
  by (induction q) auto

lemma set_queue_push [simp]: "set (queue_push p q) = insert p (set q)"
  by (induction q) auto

lemma sorted_queue_push: "sorted (map deadline q) \<Longrightarrow> sorted (map deadline (queue_push p q))"
  by (induction q) (simp_all, fastforce)

lemma queue_push_not_Nil [simp]: "queue_push p q \<noteq> []"
  by (cases q) auto

interpretation dq: deadline_queue deadline "\<lambda>q. sorted (map deadline q)" mset queue_push hd tl
proof
  fix q :: "Package list" and e
  assume "sorted (map deadline q)" "e \<in># mset q"
  then show "deadline (hd q) \<le> deadline e" by (cases q) auto
next
  fix q :: "Package list" assume "mset q \<noteq> {#}"
  then show "mset (tl q) = mset q - {#hd q#}" by (cases q) auto
next
  fix q :: "Package list" assume "sorted (map deadline q)" "mset q \<noteq> {#}"
  then show "sorted (map deadline (tl q))" by (cases q) auto
qed (simp_all add: mset_queue_push sorted_queue_push)

lemma loop_deadline_hd: "loop_deadline pl = (if mPackageQueue pl = [] then kTimeMax else deadline (hd (mPackageQueue pl)))"
  by (simp add: loop_deadline_def split: list.splits)

lemma loop_deadline_schedule:
  assumes "sorted (map deadline (mPackageQueue pl))" and "t \<le> kTimeMax"
  shows "loop_deadline (Pool_schedule wid pid t pl) = min t (loop_deadline pl)"
  using assms(2) by (simp add: loop_deadline_hd Pool_schedule_def dq.top_push [OF assms(1)])

lemma pool_frame [simp]:
  "mPackageQueue (Pool_stop pl) = mPackageQueue pl"
  "mPackageQueue (Pool_schedule wid pid t pl) =
     queue_push \<lparr>deadline = t, templateQueueWorkerId = wid, packageId = pid\<rparr> (mPackageQueue pl)"
  "mRunning (Pool_schedule wid pid t pl) = mRunning pl"
  "mCallbackMap (Pool_schedule wid pid t pl) = mCallbackMap pl"
  "loop_deadline (Pool_stop pl) = loop_deadline pl"
  by (simp_all add: Pool_stop_def Pool_schedule_def loop_deadline_def)

section \<open>Threads of a pool\<close>

inductive_cases pool_stepE: "pool_step s s'"

lemma take_package_cases:
  obtains e es where "mRunning (pool s)" "mPackageQueue (pool s) = e # es"
      "take_package i s = s\<lparr>pool := (pool s)\<lparr>mPackageQueue := es\<rparr>,
         threads := (threads s)[i := Running e], fired := fired s @ [(e, clock s)]\<rparr>"
  | st where "take_package i s = s\<lparr>threads := (threads s)[i := st]\<rparr>" "\<And>d. st \<noteq> Waiting d"
proof (cases "mRunning (pool s) \<and> mPackageQueue (pool s) \<noteq> []")
  case True
  then obtain e es where "mPackageQueue (pool s) = e # es" by (auto simp: neq_Nil_conv)
  with True that(1) [of e es] show thesis by (simp add: take_package_def loop_take_def)
next
  case False
  with that(2) [of Exited] that(2) [of Checking] show thesis
    by (cases "mRunning (pool s)") (simp_all add: take_package_def loop_take_def)
qed

lemma pool_inv_take: "pool_inv s \<Longrightarrow> pool_inv (take_package i s)"
  by (rule take_package_cases [of s i]) (auto simp: pool_inv_def)

lemma pool_inv_step: "pool_inv s \<Longrightarrow> pool_step s s' \<Longrightarrow> pool_inv s'"
  by (erule pool_stepE)
    (simp_all add: pool_inv_take, simp_all add: pool_inv_def mset_queue_push sorted_queue_push)

lemma lone_inv_take:
  assumes "lone_inv s" and "i < length (threads s)"
    and "mPackageQueue (pool s) \<noteq> [] \<Longrightarrow> mRunning (pool s) \<Longrightarrow> loop_deadline (pool s) \<le> clock s"
  shows "lone_inv (take_package i s)"
proof (rule take_package_cases [of s i])
  fix e es
  assume "mRunning (pool s)" "mPackageQueue (pool s) = e # es"
    "take_package i s = s\<lparr>pool := (pool s)\<lparr>mPackageQueue := es\<rparr>,
       threads := (threads s)[i := Running e], fired := fired s @ [(e, clock s)]\<rparr>"
  with assms show ?thesis by (auto simp: lone_inv_def loop_deadline_def)
qed (use assms in \<open>auto simp: lone_inv_def\<close>)

lemma lone_inv_step:
  assumes inv: "lone_inv s" and sorted: "pool_inv s" and step: "pool_step s s'"
  shows "lone_inv s'"
  using step
proof (cases rule: pool_step.cases)
  case (post t wid pid)
  with inv sorted show ?thesis
    by (auto simp: lone_inv_def pool_inv_def loop_deadline_schedule intro: min.coboundedI2)
next
  case (ready i)
  have "lone_inv (take_package i s)"
    using ready inv
    by (intro lone_inv_take) (auto simp: loop_pred_def loop_deadline_def split: list.splits)
  with ready show ?thesis by simp
next
  case (timeout i d)
  have "lone_inv (take_package i s)"
    using timeout inv by (intro lone_inv_take) (auto simp: lone_inv_def intro: order.trans)
  with timeout show ?thesis by simp
qed (use inv in \<open>auto simp: lone_inv_def\<close>)

lemma pool_inv_start: "pool_inv (pool_start n)"
  by (simp add: pool_start_def pool_inv_def Pool_init_def)

lemma lone_inv_start: "lone_inv (pool_start (Suc 0))"
  by (simp add: pool_start_def lone_inv_def)

interpretation pools: invariant_of "\<lambda>s. s = pool_start n" pool_step pool_inv
  by unfold_locales (auto intro: pool_inv_start pool_inv_step)

interpretation lone: invariant_of "\<lambda>s. s = pool_start 1" pool_step "\<lambda>s. pool_inv s \<and> lone_inv s"
  by unfold_locales (auto intro: pool_inv_start lone_inv_start pool_inv_step lone_inv_step)

section \<open>One worker on a pool\<close>

lemma distinct_queue_push:
  "distinct (map f (queue_push p q)) \<longleftrightarrow> distinct (map f q) \<and> f p \<notin> f ` set q"
  by (induction q) auto

lemma worker_inv_queued:
  assumes "worker_inv (w, pl)" and "e \<in> set (mPackageQueue pl)"
  obtains p where "umap_find (mPackages w) (packageId e) = Some p"
  using assms by (auto simp: worker_inv_def)

lemma Worker_schedule_inv:
  assumes inv: "worker_inv (w, pl)" and r: "Worker_schedule p t (w, pl) = (w', pl')"
  shows "worker_inv (w', pl')"
    and "worker_pending w' pl' = add_mset (t, p) (worker_pending w pl)"
proof -
  let ?c = "mPackageIdCounter w + 1"
  let ?e = "\<lparr>deadline = t, templateQueueWorkerId = mCallbackId w, packageId = ?c\<rparr>"
  have le: "packageId e \<le> mPackageIdCounter w" if "e \<in> set (mPackageQueue pl)" for e
    using inv that by (simp add: worker_inv_def)
  then have ids: "?c \<notin> packageId ` set (mPackageQueue pl)" by fastforce
  then have fresh: "umap_find (mPackages w) ?c = None"
    using inv by (simp add: worker_inv_def)
  have w': "w' = w\<lparr>mPackageIdCounter := ?c, mPackages := umap_set ?c p (mPackages w)\<rparr>"
    and pl': "pl' = Pool_schedule (mCallbackId w) ?c t pl"
    using r fresh by (auto simp: Worker_schedule_def Worker_emplace_def Worker_post_def Let_def)
  show "worker_inv (w', pl')"
    using inv ids le unfolding w' pl'
    by (simp add: worker_inv_def umap_simps sorted_queue_push distinct_queue_push) fastforce
  show "worker_pending w' pl' = add_mset (t, p) (worker_pending w pl)"
    using ids unfolding w' pl'
    by (simp add: worker_pending_def mset_queue_push umap_simps, intro image_mset_cong) force
qed

lemma Worker_fire_inv:
  assumes inv: "worker_inv (w, pl)" and q: "mPackageQueue pl \<noteq> []"
  obtains d p w' pl' where "Worker_fire (w, pl) = (Some p, w', pl')" "worker_inv (w', pl')"
    "worker_pending w pl = add_mset (d, p) (worker_pending w' pl')"
    "loop_deadline pl = d" "\<forall>(d', p') \<in># worker_pending w pl. d \<le> d'"
proof -
  obtain e es where e: "mPackageQueue pl = e # es" using q by (auto simp: neq_Nil_conv)
  then obtain p where p: "umap_find (mPackages w) (packageId e) = Some p"
    using worker_inv_queued [OF inv] by (metis list.set_intros(1))
  let ?w = "w\<lparr>mPackages := umap_erase (packageId e) (mPackages w)\<rparr>"
  let ?pl = "pl\<lparr>mPackageQueue := es\<rparr>"
  have fire: "Worker_fire (w, pl) = (Some p, ?w, ?pl)"
    using inv e p by (auto simp: worker_inv_def Worker_fire_def loop_take_def loop_callback_def
        Worker_process_def)
  have "packageId e \<notin> packageId ` set es"
    using inv e by (simp add: worker_inv_def)
  then have other: "packageId x \<noteq> packageId e" if "x \<in> set es" for x
    using that by (metis imageI)
  then have inv': "worker_inv (?w, ?pl)"
    using inv e by (auto simp: worker_inv_def umap_simps)
  have pend: "worker_pending w pl = add_mset (deadline e, p) (worker_pending ?w ?pl)"
    using e p other by (auto simp: worker_pending_def umap_simps intro!: image_mset_cong)
  have least: "\<forall>(d', p') \<in># worker_pending w pl. deadline e \<le> d'"
    using inv e by (auto simp: worker_pending_def worker_inv_def)
  show thesis
    by (rule that [OF fire inv' pend _ least]) (simp add: loop_deadline_def e)
qed

lemma Worker_fire_empty:
  "mPackageQueue pl = [] \<Longrightarrow> Worker_fire (w, pl) = (None, w, pl)"
  by (simp add: Worker_fire_def loop_take_def)

lemma worker_inv_start:
  "worker_inv (Worker_init this, Pool_addCallback this (Some ()) Pool_init)"
  by (simp add: worker_inv_def Worker_init_def Pool_addCallback_def Pool_init_def umap_simps)

section \<open>Interleaved calls of schedule\<close>

lemma Worker_fire_stranded:
  assumes "stranded pid p s" and "Worker_fire (worker s, wpool s) = (r, w', pl')"
  shows "stranded pid p (s\<lparr>worker := w', wpool := pl'\<rparr>)"
proof (cases "mRunning (wpool s) \<and> mPackageQueue (wpool s) \<noteq> []")
  case True
  then obtain e es where e: "mPackageQueue (wpool s) = e # es" by (auto simp: neq_Nil_conv)
  with assms True show ?thesis
    by (auto simp: stranded_def Worker_fire_def loop_take_def Worker_process_def umap_simps
        split: option.splits)
next
  case False
  with assms have "w' = worker s" "pl' = wpool s"
    by (auto simp: Worker_fire_def loop_take_def split: if_splits)
  with assms show ?thesis by (simp add: stranded_def)
qed

lemma stranded_step:
  assumes "stranded pid p s" and "sched_step s s'"
  shows "stranded pid p s'"
  using assms(2)
proof (cases rule: sched_step.cases)
  case (fire r w' pool')
  with Worker_fire_stranded [OF assms(1)] show ?thesis by simp
qed (use assms(1) in \<open>auto simp: stranded_def Worker_emplace_def Worker_post_def Let_def umap_simps\<close>)

interpretation lost: invariant_of "stranded pid p" sched_step "stranded pid p"
  by unfold_locales (auto intro: stranded_step)

lemma race_reaches:
  "\<exists>s. reach (\<lambda>s. s = sched_start this) sched_step s \<and> inflight s = [] \<and> stranded 1 a s"
proof -
  let ?R = "reach (\<lambda>s. s = sched_start this) sched_step"
  let ?s0 = "sched_start this :: 'a sched_sys"
  let ?s1 = "?s0\<lparr>worker := Worker_emplace a (worker ?s0), inflight := inflight ?s0 @ [t]\<rparr>"
  let ?s2 = "?s1\<lparr>worker := Worker_emplace b (worker ?s1), inflight := inflight ?s1 @ [u]\<rparr>"
  let ?post = "\<lambda>s :: 'a sched_sys. s\<lparr>wpool := Worker_post (inflight s ! 0) (worker s) (wpool s),
      inflight := take 0 (inflight s) @ drop (Suc 0) (inflight s)\<rparr>"
  have "?R ?s0" by (rule reach_init) simp
  then have "?R ?s1" by (rule reach_step) (rule sched_step.emplace)
  then have "?R ?s2" by (rule reach_step) (rule sched_step.emplace)
  then have "?R (?post ?s2)"
    by (rule reach_step) (rule sched_step.post, simp add: sched_start_def)
  then have "?R (?post (?post ?s2))"
    by (rule reach_step) (rule sched_step.post, simp add: sched_start_def)
  moreover have "inflight (?post (?post ?s2)) = [] \<and> stranded 1 a (?post (?post ?s2))"
    by (simp add: sched_start_def stranded_def Worker_init_def Worker_emplace_def Worker_post_def
        Pool_schedule_def Pool_addCallback_def Pool_init_def umap_simps)
  ultimately show ?thesis by blast
qed

lemma two_threads_reach:
  defines "p5 \<equiv> \<lparr>deadline = 5, templateQueueWorkerId = 0, packageId = 1\<rparr>"
    and "p100 \<equiv> \<lparr>deadline = 100, templateQueueWorkerId = 0, packageId = 2\<rparr>"
  shows "\<exists>s :: unit pool_sys. reach (\<lambda>s. s = pool_start 2) pool_step s \<and> (p100, 5) \<in> set (fired s)"
proof -
  let ?R = "reach (\<lambda>s. s = pool_start 2) pool_step :: unit pool_sys \<Rightarrow> bool"
  let ?s = "\<lambda>q now ts posts fs :: (Package \<times> time) list.
      \<lparr>pool = \<lparr>mRunning = True, mPackageQueue = q, mCallbackMap = []\<rparr>, clock = now, threads = ts,
       posted = posts, fired = fs\<rparr> :: unit pool_sys"
  have "?R (?s [] 0 [Checking, Checking] [] [])"
    by (rule reach_init) (simp add: pool_start_def Pool_init_def numeral_2_eq_2)
  then have "?R (?s [p5] 0 [Checking, Checking] [p5] [])"
    by (rule reach_step) (use pool_step.post [of 5 "?s [] 0 [Checking, Checking] [] []" 0 1] in
        \<open>simp add: Pool_schedule_def p5_def kTimeMax_def\<close>)
  then have "?R (?s [p5] 0 [Waiting 5, Checking] [p5] [])"
    by (rule reach_step) (use pool_step.sleep [of 0 "?s [p5] 0 [Checking, Checking] [p5] []"] in
        \<open>simp add: loop_pred_def loop_deadline_def p5_def\<close>)
  then have "?R (?s [p5] 5 [Waiting 5, Checking] [p5] [])"
    by (rule reach_step) (use pool_step.tick [of "?s [p5] 0 [Waiting 5, Checking] [p5] []" 5] in simp)
  then have "?R (?s [] 5 [Waiting 5, Running p5] [p5] [(p5, 5)])"
    by (rule reach_step) (use pool_step.ready [of 1 "?s [p5] 5 [Waiting 5, Checking] [p5] []"] in
        \<open>simp add: loop_pred_def take_package_def loop_take_def p5_def\<close>)
  then have "?R (?s [p100] 5 [Waiting 5, Running p5] [p5, p100] [(p5, 5)])"
    by (rule reach_step) (use pool_step.post [of 100 "?s [] 5 [Waiting 5, Running p5] [p5] [(p5, 5)]" 0 2] in
        \<open>simp add: Pool_schedule_def p100_def kTimeMax_def\<close>)
  then have "?R (?s [] 5 [Running p100, Running p5] [p5, p100] [(p5, 5), (p100, 5)])"
    by (rule reach_step) (use pool_step.timeout [of 0 "?s [p100] 5 [Waiting 5, Running p5] [p5, p100] [(p5, 5)]" 5] in
        \<open>simp add: take_package_def loop_take_def\<close>)
  moreover have "(p100, 5) \<in> set (fired (?s [] 5 [Running p100, Running p5] [p5, p100] [(p5, 5), (p100, 5)]))"
    by simp
  ultimately show ?thesis by blast
qed

section \<open>Properties\<close>

text \<open>
  C5: A worker that is its pool's only user delivers each package exactly once and earliest
  deadline first. \<open>schedule\<close> without interference adds the package to those pending under
  its deadline. A turn of the loop hands out a pending package of least deadline, removes
  exactly it, and keeps the invariant.
\<close>
theorem Worker_exactly_once:
  assumes "worker_inv (w, pl)"
  shows "(\<forall>w' pl'. Worker_schedule p t (w, pl) = (w', pl') \<longrightarrow>
      worker_inv (w', pl') \<and> worker_pending w' pl' = add_mset (t, p) (worker_pending w pl))
    \<and> (worker_pending w pl \<noteq> {#} \<longrightarrow>
      (\<exists>d q w' pl'. Worker_fire (w, pl) = (Some q, w', pl') \<and> worker_inv (w', pl')
        \<and> worker_pending w pl = add_mset (d, q) (worker_pending w' pl')
        \<and> (\<forall>(d', q') \<in># worker_pending w pl. d \<le> d')))"
proof (intro conjI allI impI)
  fix w' pl' assume "Worker_schedule p t (w, pl) = (w', pl')"
  with assms show "worker_inv (w', pl')"
    and "worker_pending w' pl' = add_mset (t, p) (worker_pending w pl)"
    by (rule Worker_schedule_inv)+
next
  assume "worker_pending w pl \<noteq> {#}"
  then have "mPackageQueue pl \<noteq> []" by (auto simp: worker_pending_def)
  with assms show "\<exists>d q w' pl'. Worker_fire (w, pl) = (Some q, w', pl') \<and> worker_inv (w', pl')
      \<and> worker_pending w pl = add_mset (d, q) (worker_pending w' pl')
      \<and> (\<forall>(d', q') \<in># worker_pending w pl. d \<le> d')"
    by (rule Worker_fire_inv) blast
qed

theorem Worker_exactly_once_witness:
  "\<exists>w pl. worker_inv (w, pl) \<and> Worker_schedule ''late'' 9
       (Worker_init 1, Pool_addCallback 1 (Some ()) Pool_init) = (w, pl)
     \<and> worker_pending w pl = {#(9, ''late'')#}"
proof -
  let ?s = "(Worker_init 1, Pool_addCallback 1 (Some ()) Pool_init)"
  obtain w pl where r: "Worker_schedule ''late'' 9 ?s = (w, pl)" by (rule prod.exhaust)
  have "worker_inv (w, pl)" "worker_pending w pl = {#(9, ''late'')#}"
    using Worker_exactly_once [OF worker_inv_start, of "''late''" 9 1] r
    by (auto simp: worker_pending_def Pool_addCallback_def Pool_init_def)
  with r show ?thesis by blast
qed

text \<open>
  C13: In a pool of any number of threads, every package posted is either still queued or
  has been taken by a thread, and none is taken twice.
\<close>
theorem pool_no_loss:
  assumes "reach (\<lambda>s. s = pool_start n) pool_step s"
  shows "mset (posted s) = mset (mPackageQueue (pool s)) + mset (map fst (fired s))"
  using pools.reach_inv [OF assms] by (simp add: pool_inv_def)

lemma sample_posted_reach:
  "reach (\<lambda>s. s = pool_start (Suc n)) pool_step (take_package 0 (sample_posted (Suc n)))"
proof -
  have "reach (\<lambda>s. s = pool_start (Suc n)) pool_step (pool_start (Suc n) :: unit pool_sys)"
    by (rule reach_init) simp
  moreover have "pool_step (pool_start (Suc n)) (sample_posted (Suc n))"
    unfolding sample_posted_def sample_package_def Let_def by (rule pool_step.post) (simp add: kTimeMax_def)
  moreover have "pool_step (sample_posted (Suc n)) (take_package 0 (sample_posted (Suc n)))"
    by (rule pool_step.ready)
      (simp_all add: sample_posted_def pool_start_def loop_pred_def Pool_schedule_def Pool_init_def)
  ultimately show ?thesis by (blast intro: reach_step)
qed

lemma sample_posted_taken:
  "fired (take_package 0 (sample_posted n)) = [(sample_package, 0)]"
  "posted (take_package 0 (sample_posted n)) = [sample_package]"
  by (simp_all add: sample_posted_def take_package_def loop_take_def pool_start_def Pool_schedule_def
      Pool_init_def sample_package_def)

theorem pool_no_loss_witness:
  "posted (take_package 0 (sample_posted 3)) = [sample_package]
   \<and> mPackageQueue (pool (take_package 0 (sample_posted 3))) = []"
  using pool_no_loss [OF sample_posted_reach [of 2]] by (simp add: sample_posted_taken)

text \<open>
  C32: In a pool with one thread, the only kind the session manager creates, no package is
  taken before its deadline, whatever wake-ups and time-outs the wait has.
\<close>
theorem lone_thread_not_early:
  assumes "reach (\<lambda>s. s = pool_start 1) pool_step s"
  shows "\<forall>(p, t) \<in> set (fired s). deadline p \<le> t"
  using lone.reach_inv [OF assms] by (simp add: lone_inv_def)

theorem lone_thread_not_early_witness:
  "fired (take_package 0 (sample_posted 1)) = [(sample_package, 0)] \<and> deadline sample_package \<le> 0"
proof -
  have "\<forall>(p, t) \<in> set (fired (take_package 0 (sample_posted 1))). deadline p \<le> t"
    using lone_thread_not_early sample_posted_reach [of 0] by (simp only: One_nat_def)
  then show ?thesis by (simp add: sample_posted_taken)
qed

text \<open>
  With two threads a package can be taken before its deadline. One thread waits for
  time 5, the other takes the package due then, a package due at 100 is posted, and the
  first thread's wait times out: the predicate is false, but the loop ignores the result
  of \<open>wait_until\<close> and takes the package that is due at 100 at time 5.
\<close>
theorem two_threads_early:
  "\<exists>s :: unit pool_sys. reach (\<lambda>s. s = pool_start 2) pool_step s
     \<and> (\<exists>(p, t) \<in> set (fired s). t < deadline p)"
proof -
  obtain s :: "unit pool_sys" where s: "reach (\<lambda>s. s = pool_start 2) pool_step s"
      "(\<lparr>deadline = 100, templateQueueWorkerId = 0, packageId = 2\<rparr>, 5) \<in> set (fired s)"
    using two_threads_reach by blast
  have "\<exists>(p, t) \<in> set (fired s). t < deadline p"
    by (rule bexI [OF _ s(2)]) simp
  with s(1) show ?thesis by blast
qed

text \<open>
  Two interleaved calls of \<open>TemplatePriorityQueueWorker::schedule\<close> can lose a package.
  Both add their package under the lock, then both read the counter, so the second id is
  posted twice and the first never. Once both calls have returned, the first package stays
  in the table in every later state: it is never delivered.
\<close>
theorem schedule_race_loses:
  "\<exists>s. reach (\<lambda>s. s = sched_start this) sched_step s \<and> inflight s = []
     \<and> umap_find (mPackages (worker s)) 1 = Some a
     \<and> (\<forall>s'. reach (\<lambda>x. x = s) sched_step s' \<longrightarrow> umap_find (mPackages (worker s')) 1 = Some a)"
proof -
  obtain s where s: "reach (\<lambda>s. s = sched_start this) sched_step s" "inflight s = []" "stranded 1 a s"
    using race_reaches [of this a] by (elim exE conjE) (rule that)
  have "stranded 1 a s'" if "reach (\<lambda>x. x = s) sched_step s'" for s'
  proof -
    have "reach (stranded 1 a) sched_step s'"
      using that by (induction rule: reach.induct) (auto intro: reach.intros s(3))
    then show ?thesis by (rule lost.reach_inv)
  qed
  with s show ?thesis by (auto simp: stranded_def)
qed

theorem schedule_race_loses_witness:
  "\<exists>s. reach (\<lambda>s. s = sched_start 1) sched_step s \<and> umap_find (mPackages (worker s)) 1 = Some ''first''"
  using schedule_race_loses [of 1 "''first''"] by blast

end
