(* ===== verification/FloatingPoint.thy ===== *)
theory FloatingPoint
  imports Prelude "HOL-Library.Log_Nat" Complex_Main
begin

text \<open>
  The C++ types \<open>float\<close> and \<open>double\<close>, as far as the program uses them: conversion from
  integers and between the formats, the four operations, comparison and truncation to an
  integer.

  A value is a rational number, an infinity or not a number. An operation computes the
  exact rational result and rounds it to the nearest number of the format, ties to even,
  with gradual underflow and overflow to infinity. The sign of zero is not kept: the only
  zero divisors the program can meet come from integers and are positive. A conversion to
  an integer type that cannot hold the value is undefined in C++, and is \<open>None\<close> here.

  The locale \<open>rounding\<close> states what the components rely on: rounding is monotone, odd, and
  exact on small integers.
\<close>

section \<open>Definitions\<close>

datatype fp = Fin rat | PInf | NInf | NaN

record fp_format =
  prec :: nat
  emin :: int
  emax :: int

definition f64 :: fp_format where
  "f64 = \<lparr>prec = 53, emin = - 1074, emax = 1024\<rparr>"

definition f32 :: fp_format where
  "f32 = \<lparr>prec = 24, emin = - 149, emax = 128\<rparr>"

definition ilog2 :: "rat \<Rightarrow> int" where
  "ilog2 x = (let (a, b) = quotient_of x; k = bitlen a - bitlen b in
     if 2 powi k \<le> x then k else k - 1)"

definition half_even :: "rat \<Rightarrow> int" where
  "half_even q = (let f = \<lfloor>q\<rfloor>; d = q - of_int f in
     if d < 1 / 2 then f else if 1 / 2 < d then f + 1 else if even f then f else f + 1)"

definition ulp_exp :: "fp_format \<Rightarrow> rat \<Rightarrow> int" where
  "ulp_exp F x = max (ilog2 \<bar>x\<bar> - int (prec F) + 1) (emin F)"

definition fp_rnd :: "fp_format \<Rightarrow> rat \<Rightarrow> rat" where
  "fp_rnd F x = (if x = 0 then 0
     else of_int (half_even (x / 2 powi ulp_exp F x)) * 2 powi ulp_exp F x)"

definition fp_round :: "fp_format \<Rightarrow> rat \<Rightarrow> fp" where
  "fp_round F x = (let y = fp_rnd F x in
     if 2 powi emax F \<le> y then PInf else if y \<le> - (2 powi emax F) then NInf else Fin y)"

definition fp_of_int :: "fp_format \<Rightarrow> int \<Rightarrow> fp" where
  "fp_of_int F n = fp_round F (of_int n)"

fun fp_neg :: "fp \<Rightarrow> fp" where
  "fp_neg (Fin x) = Fin (- x)"
| "fp_neg PInf = NInf"
| "fp_neg NInf = PInf"
| "fp_neg NaN = NaN"

fun fp_scale_inf :: "rat \<Rightarrow> fp \<Rightarrow> fp" where
  "fp_scale_inf x i = (if x = 0 then NaN else if 0 < x then i else fp_neg i)"

fun fp_mul :: "fp_format \<Rightarrow> fp \<Rightarrow> fp \<Rightarrow> fp" where
  "fp_mul F (Fin x) (Fin y) = fp_round F (x * y)"
| "fp_mul F NaN b = NaN"
| "fp_mul F a NaN = NaN"
| "fp_mul F (Fin x) b = fp_scale_inf x b"
| "fp_mul F a (Fin y) = fp_scale_inf y a"
| "fp_mul F PInf b = b"
| "fp_mul F NInf b = fp_neg b"

fun fp_div :: "fp_format \<Rightarrow> fp \<Rightarrow> fp \<Rightarrow> fp" where
  "fp_div F (Fin x) (Fin y) =
     (if y \<noteq> 0 then fp_round F (x / y) else if x = 0 then NaN else if 0 < x then PInf else NInf)"
| "fp_div F NaN b = NaN"
| "fp_div F a NaN = NaN"
| "fp_div F (Fin x) b = Fin 0"
| "fp_div F a (Fin y) = (if y < 0 then fp_neg a else a)"
| "fp_div F a b = NaN"

fun fp_add :: "fp_format \<Rightarrow> fp \<Rightarrow> fp \<Rightarrow> fp" where
  "fp_add F (Fin x) (Fin y) = fp_round F (x + y)"
| "fp_add F NaN b = NaN"
| "fp_add F a NaN = NaN"
| "fp_add F (Fin x) b = b"
| "fp_add F a (Fin y) = a"
| "fp_add F a b = (if a = b then a else NaN)"

definition fp_sub :: "fp_format \<Rightarrow> fp \<Rightarrow> fp \<Rightarrow> fp" where
  "fp_sub F a b = fp_add F a (fp_neg b)"

text \<open>Conversion to another format, as from \<open>double\<close> to \<open>float\<close>.\<close>

fun fp_conv :: "fp_format \<Rightarrow> fp \<Rightarrow> fp" where
  "fp_conv F (Fin x) = fp_round F x"
| "fp_conv F a = a"

fun fp_less :: "fp \<Rightarrow> fp \<Rightarrow> bool" where
  "fp_less (Fin x) (Fin y) \<longleftrightarrow> x < y"
| "fp_less (Fin x) PInf \<longleftrightarrow> True"
| "fp_less NInf (Fin y) \<longleftrightarrow> True"
| "fp_less NInf PInf \<longleftrightarrow> True"
| "fp_less _ _ \<longleftrightarrow> False"

fun fp_le :: "fp \<Rightarrow> fp \<Rightarrow> bool" where
  "fp_le (Fin x) (Fin y) \<longleftrightarrow> x \<le> y"
| "fp_le NInf b \<longleftrightarrow> b \<noteq> NaN"
| "fp_le a PInf \<longleftrightarrow> a \<noteq> NaN"
| "fp_le _ _ \<longleftrightarrow> False"

text \<open>Conversion to a signed \<open>n\<close>-bit integer truncates towards zero.\<close>

fun fp_to_int :: "nat \<Rightarrow> fp \<Rightarrow> int option" where
  "fp_to_int n (Fin x) =
     (let t = (if 0 \<le> x then \<lfloor>x\<rfloor> else \<lceil>x\<rceil>) in if in_signed n t then Some t else None)"
| "fp_to_int n _ = None"

text \<open>Not negative, as far as the value is a number.\<close>

fun fp_nonneg :: "fp \<Rightarrow> bool" where
  "fp_nonneg (Fin x) \<longleftrightarrow> 0 \<le> x"
| "fp_nonneg NInf \<longleftrightarrow> False"
| "fp_nonneg _ \<longleftrightarrow> True"

section \<open>Rounding\<close>

lemma ilog2_bounds:
  assumes "0 < x"
  shows "2 powi ilog2 x \<le> x" "x < 2 powi (ilog2 x + 1)"
proof -
  obtain a b where q: "quotient_of x = (a, b)" by (metis surj_pair)
  have b: "0 < b" using quotient_of_denom_pos [OF q] .
  have x: "x = of_int a / of_int b" using quotient_of_div [OF q] .
  then have a: "0 < a" using assms b by (simp add: zero_less_divide_iff)
  have pow: "(2::rat) powi (bitlen n - 1) \<le> of_int n \<and> (of_int n :: rat) < 2 powi bitlen n"
    if "0 < n" for n
  proof -
    have "1 \<le> bitlen n" using that bitlen_bounds [of n] by (cases "bitlen n = 0") (auto simp: bitlen_alt_def)
    then have "(2::rat) powi (bitlen n - 1) = of_int (2 ^ nat (bitlen n - 1))"
      "(2::rat) powi bitlen n = of_int (2 ^ nat (bitlen n))"
      by (simp_all add: power_int_def)
    with bitlen_bounds [OF that] show ?thesis by (simp only: of_int_le_iff of_int_less_iff)
  qed
  let ?k = "bitlen a - bitlen b"
  have "2 powi (?k - 1) = (2 powi (bitlen a - 1) :: rat) / 2 powi bitlen b"
    by (simp add: power_int_diff)
  also have "\<dots> \<le> x" unfolding x using pow [OF a] pow [OF b] a b
    by (intro frac_le) auto
  finally have lo: "2 powi (?k - 1) \<le> x" .
  have "x < (2 powi bitlen a :: rat) / 2 powi (bitlen b - 1)"
    unfolding x using pow [OF a] pow [OF b] a b by (intro frac_less) auto
  also have "\<dots> = 2 powi (?k + 1)" by (simp add: power_int_diff power_int_add)
  finally have hi: "x < 2 powi (?k + 1)" .
  have "ilog2 x = (if 2 powi ?k \<le> x then ?k else ?k - 1)"
    by (simp add: ilog2_def q)
  with lo hi show "2 powi ilog2 x \<le> x" "x < 2 powi (ilog2 x + 1)"
    by (auto split: if_splits)
qed

lemma powi_less_cancel: "(2::rat) powi a < 2 powi b \<Longrightarrow> a < b"
  by (metis linorder_not_less one_le_numeral power_int_increasing)

lemma ilog2_mono:
  assumes "0 < x" and "x \<le> y"
  shows "ilog2 x \<le> ilog2 y"
proof -
  have "(2::rat) powi ilog2 x < 2 powi (ilog2 y + 1)"
    using ilog2_bounds [OF assms(1)] ilog2_bounds [of y] assms by linarith
  then show ?thesis using powi_less_cancel by fastforce
qed

lemma half_even_mono:
  assumes "q \<le> r"
  shows "half_even q \<le> half_even r"
proof (cases "\<lfloor>q\<rfloor> = \<lfloor>r\<rfloor>")
  case False
  then have "\<lfloor>q\<rfloor> + 1 \<le> \<lfloor>r\<rfloor>" using floor_mono [OF assms] by linarith
  moreover have "half_even q \<le> \<lfloor>q\<rfloor> + 1" "\<lfloor>r\<rfloor> \<le> half_even r"
    by (auto simp: half_even_def Let_def)
  ultimately show ?thesis by linarith
qed (use assms in \<open>auto simp: half_even_def Let_def\<close>)

lemma half_even_of_int [simp]: "half_even (of_int n) = n"
  by (simp add: half_even_def)

lemma half_even_minus: "half_even (- q) = - half_even q"
proof (cases "q = of_int \<lfloor>q\<rfloor>")
  case True
  then obtain n where "q = of_int n" by blast
  then show ?thesis using half_even_of_int [of "- n"] by simp
next
  case False
  define f d where "f = \<lfloor>q\<rfloor>" and "d = q - of_int f"
  have q: "q = of_int f + d" and d: "0 < d" "d < 1"
    using False floor_correct [of q] by (auto simp: f_def d_def less_le)
  have "\<lfloor>- q\<rfloor> = - f - 1" using q d by (intro floor_unique) auto
  moreover have "- q - of_int (- f - 1) = 1 - d" using q by simp
  ultimately have "half_even (- q) =
      (if 1 - d < 1 / 2 then - f - 1 else if 1 / 2 < 1 - d then - f else if even (- f - 1) then - f - 1 else - f)"
    by (simp add: half_even_def Let_def)
  moreover have "half_even q = (if d < 1 / 2 then f else if 1 / 2 < d then f + 1 else if even f then f else f + 1)"
    by (simp add: half_even_def Let_def f_def d_def)
  ultimately show ?thesis by auto
qed

lemma ulp_exp_mono: "0 < x \<Longrightarrow> x \<le> y \<Longrightarrow> ulp_exp F x \<le> ulp_exp F y"
  using ilog2_mono [of x y] by (simp add: ulp_exp_def)

lemma fp_rnd_minus: "fp_rnd F (- x) = - fp_rnd F x"
  by (simp add: fp_rnd_def ulp_exp_def half_even_minus)

lemma pow2_quotient:
  assumes "a \<le> b"
  shows "(of_int (2 ^ nat (b - a)) :: rat) = 2 powi b / 2 powi a"
proof -
  have "(of_int (2 ^ nat (b - a)) :: rat) = 2 powi (b - a)"
    using assms by (simp add: power_int_def)
  then show ?thesis by (simp add: power_int_diff)
qed

lemma fp_rnd_multiple:
  assumes x: "x = of_int n * 2 powi e" and e: "ulp_exp F x \<le> e"
  shows "fp_rnd F x = x"
proof -
  let ?m = "n * 2 ^ nat (e - ulp_exp F x)"
  have "x / 2 powi ulp_exp F x = of_int n * of_int (2 ^ nat (e - ulp_exp F x))"
    by (simp only: pow2_quotient [OF e]) (simp add: x)
  then have m: "x / 2 powi ulp_exp F x = of_int ?m" by simp
  then have "of_int (half_even (x / 2 powi ulp_exp F x)) = x / 2 powi ulp_exp F x"
    by (metis half_even_of_int)
  then have "of_int (half_even (x / 2 powi ulp_exp F x)) * 2 powi ulp_exp F x = x" by simp
  then show ?thesis by (simp only: fp_rnd_def) auto
qed

lemma fp_rnd_same_ulp:
  assumes "x \<le> y" and "ulp_exp F x = ulp_exp F y" and "x \<noteq> 0" and "y \<noteq> 0"
  shows "fp_rnd F x \<le> fp_rnd F y"
  using assms half_even_mono [of "x / 2 powi ulp_exp F x" "y / 2 powi ulp_exp F y"]
  by (simp add: fp_rnd_def divide_right_mono mult_right_mono)

text \<open>A power of two between two numbers of different magnitude separates their roundings.\<close>

lemma fp_rnd_le_pow2:
  assumes "0 < x" and "emin F \<le> ilog2 x - int (prec F) + 1"
  shows "fp_rnd F x \<le> 2 powi (ilog2 x + 1)"
proof -
  let ?e = "ulp_exp F x"
  have e: "?e = ilog2 x - int (prec F) + 1" using assms by (simp add: ulp_exp_def)
  have "x / 2 powi ?e \<le> 2 powi (ilog2 x + 1) / 2 powi ?e"
    using ilog2_bounds(2) [OF assms(1)] by (simp add: divide_right_mono)
  also have "\<dots> = of_int (2 ^ prec F)"
    by (simp add: e power_int_diff power_int_add)
  finally have "half_even (x / 2 powi ?e) \<le> 2 ^ prec F"
    using half_even_mono half_even_of_int by metis
  then have "of_int (half_even (x / 2 powi ?e)) * 2 powi ?e \<le> (of_int (2 ^ prec F) :: rat) * 2 powi ?e"
    by (intro mult_right_mono) (simp_all only: of_int_le_iff zero_le_power_int zero_le_numeral)
  also have "\<dots> = 2 powi (ilog2 x + 1)" by (simp add: e power_int_diff power_int_add)
  finally show ?thesis using assms(1) by (simp add: fp_rnd_def)
qed

lemma fp_rnd_ge_pow2:
  assumes "0 < y" and "ulp_exp F y \<le> ilog2 y"
  shows "2 powi ilog2 y \<le> fp_rnd F y"
proof -
  let ?e = "ulp_exp F y"
  have "of_int (2 ^ nat (ilog2 y - ?e)) = (2::rat) powi ilog2 y / 2 powi ?e"
    by (rule pow2_quotient [OF assms(2)])
  also have "\<dots> \<le> y / 2 powi ?e"
    using ilog2_bounds(1) [OF assms(1)] by (simp add: divide_right_mono)
  finally have "2 ^ nat (ilog2 y - ?e) \<le> half_even (y / 2 powi ?e)"
    using half_even_mono half_even_of_int by metis
  then have "(of_int (2 ^ nat (ilog2 y - ?e)) :: rat) * 2 powi ?e \<le> of_int (half_even (y / 2 powi ?e)) * 2 powi ?e"
    by (intro mult_right_mono) (simp_all only: of_int_le_iff zero_le_power_int zero_le_numeral)
  also have "\<dots> = fp_rnd F y" using assms(1) by (simp add: fp_rnd_def)
  finally show ?thesis by (simp only: pow2_quotient [OF assms(2)]) simp
qed

lemma fp_rnd_mono_pos:
  assumes F: "0 < prec F" and x: "0 < x" "x \<le> y"
  shows "fp_rnd F x \<le> fp_rnd F y"
proof (cases "ulp_exp F x = ulp_exp F y")
  case True
  with x show ?thesis by (intro fp_rnd_same_ulp) auto
next
  case False
  then have less: "ulp_exp F x < ulp_exp F y" using ulp_exp_mono [OF x, of F] by simp
  then have y: "ulp_exp F y = ilog2 y - int (prec F) + 1" "ilog2 x < ilog2 y"
    using x by (auto simp: ulp_exp_def)
  have "fp_rnd F x \<le> 2 powi ilog2 y"
  proof (cases "emin F \<le> ilog2 x - int (prec F) + 1")
    case True
    have "fp_rnd F x \<le> 2 powi (ilog2 x + 1)" using fp_rnd_le_pow2 [OF x(1) True] .
    also have "\<dots> \<le> 2 powi ilog2 y" using y(2) by (intro power_int_increasing) auto
    finally show ?thesis .
  next
    case False
    let ?z = "2 powi ilog2 y :: rat"
    have ex: "ulp_exp F x = emin F" using False x by (simp add: ulp_exp_def)
    then have e: "emin F \<le> ilog2 y" using less y F by simp
    have "x \<le> ?z"
      using ilog2_bounds(2) [OF x(1)] power_int_increasing [of "ilog2 x + 1" "ilog2 y" "2 :: rat"] y(2)
      by simp
    then have "x / 2 powi emin F \<le> of_int (2 ^ nat (ilog2 y - emin F))"
      unfolding pow2_quotient [OF e] by (simp add: divide_right_mono)
    then have "half_even (x / 2 powi emin F) \<le> 2 ^ nat (ilog2 y - emin F)"
      using half_even_mono half_even_of_int by metis
    then have "of_int (half_even (x / 2 powi emin F)) * 2 powi emin F
        \<le> (of_int (2 ^ nat (ilog2 y - emin F)) :: rat) * 2 powi emin F"
      by (intro mult_right_mono) (simp_all only: of_int_le_iff zero_le_power_int zero_le_numeral)
    also have "\<dots> = ?z" by (simp only: pow2_quotient [OF e]) simp
    finally show ?thesis using x(1) by (simp add: fp_rnd_def ex)
  qed
  also have "\<dots> \<le> fp_rnd F y" using x y F by (intro fp_rnd_ge_pow2) auto
  finally show ?thesis .
qed

lemma fp_rnd_nonneg: "0 \<le> x \<Longrightarrow> 0 \<le> fp_rnd F x"
  using half_even_mono [of 0 "x / 2 powi ulp_exp F x"] half_even_of_int [of 0]
  by (auto simp: fp_rnd_def)

lemma fp_rnd_mono:
  assumes "0 < prec F" and "x \<le> y"
  shows "fp_rnd F x \<le> fp_rnd F y"
proof -
  consider "0 < x" | "x \<le> 0" "0 \<le> y" | "y < 0" by linarith
  then show ?thesis
  proof cases
    case 1
    with assms show ?thesis by (intro fp_rnd_mono_pos)
  next
    case 2
    then show ?thesis
      using fp_rnd_nonneg [of "- x" F] fp_rnd_nonneg [of y F] by (simp add: fp_rnd_minus)
  next
    case 3
    then show ?thesis
      using fp_rnd_mono_pos [of F "- y" "- x"] assms by (simp add: fp_rnd_minus)
  qed
qed

lemma fp_rnd_of_int:
  assumes "\<bar>n\<bar> < 2 ^ prec F" and "emin F \<le> 0"
  shows "fp_rnd F (of_int n) = of_int n"
proof (cases "n = 0")
  case False
  have "(2::rat) powi ilog2 \<bar>of_int n\<bar> \<le> of_int \<bar>n\<bar>" using ilog2_bounds [of "\<bar>of_int n\<bar>"] False by simp
  also have "of_int \<bar>n\<bar> < (of_int (2 ^ prec F) :: rat)" using assms(1) by (simp only: of_int_less_iff)
  also have "\<dots> = 2 powi int (prec F)" by simp
  finally have "ilog2 \<bar>of_int n\<bar> < int (prec F)" by (rule powi_less_cancel)
  then show ?thesis using assms by (intro fp_rnd_multiple [of _ n 0]) (auto simp: ulp_exp_def)
qed (simp add: fp_rnd_def)

section \<open>What the components rely on\<close>

locale rounding =
  fixes rnd :: "rat \<Rightarrow> rat" and bound :: int
  assumes rnd_mono: "x \<le> y \<Longrightarrow> rnd x \<le> rnd y"
    and rnd_minus: "rnd (- x) = - rnd x"
    and rnd_of_int: "\<bar>n\<bar> < bound \<Longrightarrow> rnd (of_int n) = of_int n"
    and bound_pos: "0 < bound"
begin

lemma rnd_zero [simp]: "rnd 0 = 0"
  using rnd_of_int [of 0] bound_pos by simp

lemma rnd_sign: "0 \<le> x \<Longrightarrow> 0 \<le> rnd x" "x \<le> 0 \<Longrightarrow> rnd x \<le> 0"
  using rnd_mono [of 0 x] rnd_mono [of x 0] by simp_all

lemma less_rnd_imp: "\<bar>n\<bar> < bound \<Longrightarrow> of_int n < rnd x \<Longrightarrow> of_int n < x"
  using rnd_mono [of x "of_int n"] rnd_of_int [of n] by (auto simp: not_less [symmetric])

lemma rnd_less_imp: "\<bar>n\<bar> < bound \<Longrightarrow> rnd x < of_int n \<Longrightarrow> x < of_int n"
  using rnd_mono [of "of_int n" x] rnd_of_int [of n] by (auto simp: not_less [symmetric])

lemma rnd_abs_le: "\<bar>x\<bar> \<le> of_int n \<Longrightarrow> \<bar>n\<bar> < bound \<Longrightarrow> \<bar>rnd x\<bar> \<le> of_int n"
  using rnd_mono [of x "of_int n"] rnd_mono [of "- of_int n" x] rnd_of_int [of n]
  by (auto simp: rnd_minus abs_le_iff)

end

interpretation double: rounding "fp_rnd f64" "2 ^ 53"
  by unfold_locales (simp_all add: fp_rnd_mono fp_rnd_minus fp_rnd_of_int f64_def)

interpretation single: rounding "fp_rnd f32" "2 ^ 24"
  by unfold_locales (simp_all add: fp_rnd_mono fp_rnd_minus fp_rnd_of_int f32_def)

lemma fp_le_round:
  assumes "0 < prec F" and "x \<le> y"
  shows "fp_le (fp_round F x) (fp_round F y)"
  using fp_rnd_mono [OF assms] by (auto simp: fp_round_def Let_def)

lemma fp_less_le_trans: "fp_less a b \<Longrightarrow> fp_le b c \<Longrightarrow> fp_less a c"
  by (cases a; cases b; cases c) auto

lemma fp_le_less_trans: "fp_le a b \<Longrightarrow> fp_less b c \<Longrightarrow> fp_less a c"
  by (cases a; cases b; cases c) auto

lemma fp_round_of_int:
  assumes "\<bar>n\<bar> < 2 ^ prec F" and "emin F \<le> 0" and "int (prec F) \<le> emax F"
  shows "fp_round F (of_int n) = Fin (of_int n)"
proof -
  have "(of_int \<bar>n\<bar> :: rat) < of_int (2 ^ prec F)" using assms(1) by (simp only: of_int_less_iff)
  also have "\<dots> = 2 powi int (prec F)" by simp
  also have "\<dots> \<le> 2 powi emax F" using assms(3) by (intro power_int_increasing) auto
  finally show ?thesis
    using fp_rnd_of_int [OF assms(1,2)] by (auto simp: fp_round_def Let_def abs_if split: if_splits)
qed

lemma f64_of_int: "\<bar>n\<bar> < 2 ^ 53 \<Longrightarrow> fp_of_int f64 n = Fin (of_int n)"
  unfolding fp_of_int_def by (rule fp_round_of_int) (simp_all add: f64_def)

lemma f64_round_of_int: "\<bar>n\<bar> < 2 ^ 53 \<Longrightarrow> fp_round f64 (of_int n) = Fin (of_int n)"
  by (rule fp_round_of_int) (simp_all add: f64_def)

lemma fp_NaN [simp]: "fp_mul F a NaN = NaN" "fp_add F a NaN = NaN" "fp_div F a NaN = NaN"
  by (cases a; simp)+

section \<open>Values that are not negative\<close>

lemma fp_nonneg_round: "0 \<le> x \<Longrightarrow> fp_nonneg (fp_round F x)"
proof -
  assume "0 \<le> x"
  moreover have "(0 :: rat) < 2 powi emax F" by simp
  ultimately have "\<not> fp_rnd F x \<le> - (2 powi emax F)" using fp_rnd_nonneg [of x F] by linarith
  then show ?thesis using \<open>0 \<le> x\<close> by (simp add: fp_round_def Let_def fp_rnd_nonneg)
qed

lemma fp_nonneg_of_int: "0 \<le> n \<Longrightarrow> fp_nonneg (fp_of_int F n)"
  by (simp add: fp_of_int_def fp_nonneg_round)

lemma fp_nonneg_mul: "fp_nonneg a \<Longrightarrow> fp_nonneg b \<Longrightarrow> fp_nonneg (fp_mul F a b)"
  by (cases a; cases b) (auto simp: fp_nonneg_round)

lemma fp_nonneg_add: "fp_nonneg a \<Longrightarrow> fp_nonneg b \<Longrightarrow> fp_nonneg (fp_add F a b)"
  by (cases a; cases b) (auto simp: fp_nonneg_round)

lemma fp_nonneg_div: "fp_nonneg a \<Longrightarrow> fp_nonneg b \<Longrightarrow> fp_nonneg (fp_div F a b)"
  by (cases a; cases b) (auto simp: fp_nonneg_round)

lemma fp_nonneg_conv: "fp_nonneg a \<Longrightarrow> fp_nonneg (fp_conv F a)"
  by (cases a) (auto simp: fp_nonneg_round)

lemma fp_nonneg_sub: "fp_le b a \<Longrightarrow> fp_nonneg (fp_sub F a b)"
  by (cases a; cases b) (auto simp: fp_nonneg_round fp_sub_def)

lemma fp_nonneg_to_int: "fp_nonneg a \<Longrightarrow> fp_to_int n a = Some i \<Longrightarrow> 0 \<le> i"
  by (cases a) (auto simp: Let_def split: if_splits)

lemmas fp_nonneg_intros =
  fp_nonneg_round fp_nonneg_of_int fp_nonneg_mul fp_nonneg_add fp_nonneg_div fp_nonneg_conv

lemma fp_le_of_int: "0 < prec F \<Longrightarrow> m \<le> n \<Longrightarrow> fp_le (fp_of_int F m) (fp_of_int F n)"
  by (simp add: fp_of_int_def fp_le_round)

end
