(* ===== verification/SessionRecords.thy ===== *)
theory SessionRecords
  imports FloatingPoint "HOL-Library.Signed_Division"
begin

text \<open>
  \<^verbatim>\<open>power-libperfmgr/aidl/SessionRecords.{h,cpp}\<close>: statistics over the most recent work cycles
  a session has reported.

  The class keeps the last \<open>kMaxNumOfRecords\<close> records in a ring buffer, a running sum and
  a running count of missed cycles, and a queue of ring indexes with descending durations
  whose front is the longest duration in the ring. The operations return \<open>None\<close> where the
  C++ is undefined (remainder by zero, front of an empty queue).

  \<open>records_rep\<close> relates the class to the list of all records ever added; the lemmas show
  that each query is the plain function of the last \<open>kMaxNumOfRecords\<close> of them that it is
  meant to be.
\<close>

section \<open>Definitions\<close>

record WorkDuration =
  timeStampNanos :: int
  durationNanos :: int
  cpuDurationNanos :: int
  gpuDurationNanos :: int

record CycleRecord =
  startIntervalUs :: int
  totalDurationUs :: int
  isMissedCycle :: bool

record SessionRecords =
  kMaxNumOfRecords :: int
  kJankCheckTimeFactor :: fp
  mRecords :: "CycleRecord list"
  mRecordsIndQueue :: "int list"
  mAvgDurationUs :: int
  mLastStartTimeNs :: int
  mLatestRecordIndex :: int
  mNumOfMissedCycles :: int
  mNumOfFrames :: int
  mSumOfDurationsUs :: int

definition CycleRecord_default :: CycleRecord where
  "CycleRecord_default = \<lparr>startIntervalUs = 0, totalDurationUs = 0, isMissedCycle = False\<rparr>"

definition SessionRecords_init :: "int \<Rightarrow> fp \<Rightarrow> SessionRecords" where
  "SessionRecords_init maxNumOfRecords jankCheckTimeFactor =
     \<lparr>kMaxNumOfRecords = maxNumOfRecords, kJankCheckTimeFactor = jankCheckTimeFactor,
      mRecords = replicate (nat maxNumOfRecords) CycleRecord_default, mRecordsIndQueue = [],
      mAvgDurationUs = 0, mLastStartTimeNs = 0, mLatestRecordIndex = - 1,
      mNumOfMissedCycles = 0, mNumOfFrames = 0, mSumOfDurationsUs = 0\<rparr>"

text \<open>Making room: the oldest record leaves the statistics once the ring is full.\<close>

definition drop_oldest :: "SessionRecords \<Rightarrow> SessionRecords option" where
  "drop_oldest r =
     (if mNumOfFrames r \<ge> kMaxNumOfRecords r then
        if kMaxNumOfRecords r = 0 \<or> mRecordsIndQueue r = [] then None
        else
          let i = (mLatestRecordIndex r + 1) smod kMaxNumOfRecords r;
              old = mRecords r ! nat i
          in Some (r\<lparr>mSumOfDurationsUs := mSumOfDurationsUs r - totalDurationUs old,
                    mNumOfMissedCycles := mNumOfMissedCycles r - (if isMissedCycle old then 1 else 0),
                    mNumOfFrames := mNumOfFrames r - 1,
                    mRecordsIndQueue := (if hd (mRecordsIndQueue r) = i then tl (mRecordsIndQueue r)
                                         else mRecordsIndQueue r)\<rparr>)
      else Some r)"

definition cycle_missed :: "SessionRecords \<Rightarrow> int \<Rightarrow> int \<Rightarrow> bool" where
  "cycle_missed r totalUs targetDurationNs \<longleftrightarrow>
     fp_less (fp_mul f64 (fp_of_int f64 (targetDurationNs sdiv 1000)) (kJankCheckTimeFactor r))
       (fp_of_int f64 totalUs)"

text \<open>The \<open>pop_back\<close> loop: drop the indexes at the back whose duration is not greater.\<close>

definition pop_not_greater :: "CycleRecord list \<Rightarrow> int \<Rightarrow> int list \<Rightarrow> int list" where
  "pop_not_greater recs totalUs q =
     rev (dropWhile (\<lambda>i. totalDurationUs (recs ! nat i) \<le> totalUs) (rev q))"

definition addReportedDuration ::
  "WorkDuration \<Rightarrow> int \<Rightarrow> SessionRecords \<Rightarrow> SessionRecords option" where
  "addReportedDuration d targetDurationNs r0 =
     (let totalUs = to_i32 (durationNanos d sdiv 1000) in
      case drop_oldest r0 of
        None \<Rightarrow> None
      | Some r \<Rightarrow>
          if kMaxNumOfRecords r = 0 then None
          else
            let latest = (mLatestRecordIndex r + 1) smod kMaxNumOfRecords r;
                startTimeNs = timeStampNanos d - durationNanos d;
                interval = (if mNumOfFrames r > 0
                            then to_i32 ((startTimeNs - mLastStartTimeNs r) sdiv 1000) else 0);
                missed = cycle_missed r totalUs targetDurationNs;
                recs = (mRecords r)[nat latest := \<lparr>startIntervalUs = interval,
                          totalDurationUs = totalUs, isMissedCycle = missed\<rparr>];
                frames = mNumOfFrames r + 1;
                sum = mSumOfDurationsUs r + totalUs
            in Some (r\<lparr>mLatestRecordIndex := latest, mLastStartTimeNs := startTimeNs,
                 mRecords := recs, mNumOfFrames := frames,
                 mNumOfMissedCycles := mNumOfMissedCycles r + (if missed then 1 else 0),
                 mRecordsIndQueue := pop_not_greater recs totalUs (mRecordsIndQueue r) @ [latest],
                 mSumOfDurationsUs := sum, mAvgDurationUs := to_i32 (sum sdiv frames)\<rparr>))"

fun addReportedDurations ::
  "WorkDuration list \<Rightarrow> int \<Rightarrow> SessionRecords \<Rightarrow> SessionRecords option" where
  "addReportedDurations [] targetDurationNs r = Some r"
| "addReportedDurations (d # ds) targetDurationNs r =
     (case addReportedDuration d targetDurationNs r of
        None \<Rightarrow> None
      | Some r' \<Rightarrow> addReportedDurations ds targetDurationNs r')"

definition getMaxDuration :: "SessionRecords \<Rightarrow> int option" where
  "getMaxDuration r =
     (case mRecordsIndQueue r of
        [] \<Rightarrow> None
      | i # _ \<Rightarrow> Some (totalDurationUs (mRecords r ! nat i)))"

definition getAvgDuration :: "SessionRecords \<Rightarrow> int option" where
  "getAvgDuration r = (if mNumOfFrames r \<le> 0 then None else Some (mAvgDurationUs r))"

definition getNumOfRecords :: "SessionRecords \<Rightarrow> int" where
  "getNumOfRecords r = mNumOfFrames r"

definition getNumOfMissedCycles :: "SessionRecords \<Rightarrow> int" where
  "getNumOfMissedCycles r = mNumOfMissedCycles r"

definition isLowFrameRate :: "int \<Rightarrow> SessionRecords \<Rightarrow> bool" where
  "isLowFrameRate fpsLowRateThreshold r =
     (let thr = fp_div f64 (Fin 1000000) (fp_of_int f64 fpsLowRateThreshold);
          slow = (\<lambda>i. fp_le thr (fp_of_int f64 (startIntervalUs (mRecords r ! nat i))))
      in if mNumOfFrames r \<ge> 3 then
           let ind1 = mLatestRecordIndex r;
               ind2 = (if ind1 = 0 then kMaxNumOfRecords r - 1 else ind1 - 1);
               ind3 = (if ind2 = 0 then kMaxNumOfRecords r - 1 else ind2 - 1)
           in slow ind1 \<and> slow ind2 \<and> slow ind3
         else False)"

subsection \<open>Specification\<close>

text \<open>The records the statistics are about: the last \<open>K\<close> of all.\<close>

definition window :: "nat \<Rightarrow> 'a list \<Rightarrow> 'a list" where
  "window K h = drop (length h - K) h"

text \<open>The positions from \<open>lo\<close> on whose duration exceeds every later one.\<close>

definition suffix_maxima :: "CycleRecord list \<Rightarrow> nat \<Rightarrow> nat list" where
  "suffix_maxima h lo =
     filter (\<lambda>i. \<forall>k \<in> {i <..< length h}. totalDurationUs (h ! k) < totalDurationUs (h ! i))
       [lo ..< length h]"

definition records_rep :: "CycleRecord list \<Rightarrow> SessionRecords \<Rightarrow> bool" where
  "records_rep h r \<longleftrightarrow>
     (let K = nat (kMaxNumOfRecords r); c = length h in
      0 < kMaxNumOfRecords r \<and> length (mRecords r) = K
      \<and> mNumOfFrames r = int (min c K)
      \<and> mLatestRecordIndex r = (if c = 0 then - 1 else int ((c - 1) mod K))
      \<and> (\<forall>i. c \<le> i + K \<and> i < c \<longrightarrow> mRecords r ! (i mod K) = h ! i)
      \<and> mRecordsIndQueue r = map (\<lambda>i. int (i mod K)) (suffix_maxima h (c - K))
      \<and> mSumOfDurationsUs r = sum_list (map totalDurationUs (window K h))
      \<and> mNumOfMissedCycles r = int (length (filter isMissedCycle (window K h)))
      \<and> mAvgDurationUs r = (if c = 0 then 0 else
           to_i32 (sum_list (map totalDurationUs (window K h)) sdiv int (min c K)))
      \<and> (\<forall>x \<in> set h. in_signed 32 (totalDurationUs x)))"

text \<open>The record a reported duration becomes, given the records before it.\<close>

definition next_record :: "WorkDuration \<Rightarrow> int \<Rightarrow> CycleRecord list \<Rightarrow> SessionRecords \<Rightarrow> CycleRecord" where
  "next_record d targetNs h r =
     (let us = to_i32 (durationNanos d sdiv 1000) in
      \<lparr>startIntervalUs = (if h \<noteq> [] \<and> 1 < kMaxNumOfRecords r
         then to_i32 ((timeStampNanos d - durationNanos d - mLastStartTimeNs r) sdiv 1000) else 0),
       totalDurationUs = us, isMissedCycle = cycle_missed r us targetNs\<rparr>)"

definition work :: "int \<Rightarrow> int \<Rightarrow> WorkDuration" where
  "work stamp dur = \<lparr>timeStampNanos = stamp, durationNanos = dur, cpuDurationNanos = 0, gpuDurationNanos = 0\<rparr>"

section \<open>Ring indexes and windows\<close>

lemma smod_nonneg: "0 \<le> a \<Longrightarrow> 0 < b \<Longrightarrow> a smod b = a mod b" for a b :: int
  by (cases "a = 0") (simp_all add: signed_modulo_int_def)

lemma ring_neq:
  fixes i j K :: nat
  assumes "i < j" and "j < i + K"
  shows "i mod K \<noteq> j mod K"
proof
  assume "i mod K = j mod K"
  then have "K dvd j - i" using assms(1) by (metis mod_eq_dvd_iff_nat less_imp_le)
  then show False using assms by (auto dest!: dvd_imp_le)
qed

lemma ring_next:
  fixes c K :: nat
  assumes "0 < K"
  shows "((if c = 0 then - 1 else int ((c - 1) mod K)) + 1) smod int K = int (c mod K)"
proof -
  have "((if c = 0 then - 1 else int ((c - 1) mod K)) + 1) smod int K =
      (if c = 0 then 0 else (int ((c - 1) mod K) + 1) mod int K)"
    using assms by (simp add: smod_nonneg)
  also have "\<dots> = int (c mod K)"
    by (cases c) (simp_all add: zmod_int mod_add_left_eq add.commute [of 1])
  finally show ?thesis .
qed

lemma ring_prev:
  fixes a K :: nat
  assumes "0 < K" and "0 < a"
  shows "(if a mod K = 0 then K - 1 else a mod K - 1) = (a - 1) mod K"
  using assms by (cases a) (auto simp: mod_Suc)

lemma window_snoc: "0 < K \<Longrightarrow> window K (h @ [x]) = window (K - 1) h @ [x]"
  by (simp add: window_def Suc_diff_le)

lemma window_Suc:
  assumes "Suc K \<le> length h"
  shows "window (Suc K) h = h ! (length h - Suc K) # window K h"
proof -
  have "length h - Suc K < length h" and "Suc (length h - Suc K) = length h - K" using assms by auto
  then show ?thesis by (simp add: window_def Cons_nth_drop_Suc [symmetric])
qed

section \<open>Suffix maxima\<close>

lemma suffix_maxima_step:
  assumes "lo < length h"
  shows "suffix_maxima h lo =
    (if \<forall>k \<in> {lo <..< length h}. totalDurationUs (h ! k) < totalDurationUs (h ! lo) then [lo] else [])
    @ suffix_maxima h (Suc lo)"
  using assms by (simp add: suffix_maxima_def upt_conv_Cons)

lemma suffix_maxima_end [simp]: "suffix_maxima h (length h) = []"
  by (simp add: suffix_maxima_def)

lemma suffix_maxima_bounds: "i \<in> set (suffix_maxima h lo) \<Longrightarrow> lo \<le> i \<and> i < length h"
  by (auto simp: suffix_maxima_def)

lemma suffix_maxima_snoc:
  assumes "lo \<le> length h"
  shows "suffix_maxima (h @ [x]) lo =
    filter (\<lambda>i. totalDurationUs x < totalDurationUs (h ! i)) (suffix_maxima h lo) @ [length h]"
proof -
  let ?n = "length h"
  have "(\<forall>k \<in> {i <..< Suc ?n}. totalDurationUs ((h @ [x]) ! k) < totalDurationUs ((h @ [x]) ! i)) \<longleftrightarrow>
      totalDurationUs x < totalDurationUs (h ! i) \<and>
      (\<forall>k \<in> {i <..< ?n}. totalDurationUs (h ! k) < totalDurationUs (h ! i))" if "i < ?n" for i
  proof -
    have "{i <..< Suc ?n} = insert ?n {i <..< ?n}" using that by auto
    then show ?thesis using that by (auto simp: nth_append)
  qed
  then have "filter (\<lambda>i. \<forall>k \<in> {i <..< Suc ?n}. totalDurationUs ((h @ [x]) ! k) < totalDurationUs ((h @ [x]) ! i))
        [lo ..< ?n] = filter (\<lambda>i. totalDurationUs x < totalDurationUs (h ! i)) (suffix_maxima h lo)"
    unfolding suffix_maxima_def filter_filter by (intro filter_cong) auto
  then show ?thesis using assms by (simp add: suffix_maxima_def)
qed

lemma suffix_maxima_desc:
  "sorted_wrt (\<lambda>i j. i < j \<and> totalDurationUs (h ! j) < totalDurationUs (h ! i)) (suffix_maxima h lo)"
proof -
  have "sorted_wrt (\<lambda>i j. i < j) (suffix_maxima h lo)"
    unfolding suffix_maxima_def by (intro sorted_wrt_filter) simp
  then show ?thesis
    by (rule sorted_wrt_mono_rel [rotated]) (auto simp: suffix_maxima_def)
qed

lemma set_drop_nth: "set (drop n xs) = (!) xs ` {n ..< length xs}"
proof -
  have "drop n xs = map ((!) xs) [n ..< length xs]" by (simp add: list_eq_iff_nth_eq)
  then show ?thesis by simp
qed

lemma suffix_maxima_head:
  assumes "lo < length h"
  shows "suffix_maxima h lo \<noteq> [] \<and>
    totalDurationUs (h ! hd (suffix_maxima h lo)) = Max (totalDurationUs ` set (drop lo h))"
  using assms
proof (induction "length h - lo" arbitrary: lo)
  case (Suc n)
  have set: "set (drop lo h) = insert (h ! lo) (set (drop (Suc lo) h))"
    using Suc.prems by (simp add: Cons_nth_drop_Suc [symmetric])
  have rest: "set (drop (Suc lo) h) = (!) h ` {lo <..< length h}"
    by (simp add: set_drop_nth atLeastSucLessThan_greaterThanLessThan)
  show ?case
  proof (cases "\<forall>k \<in> {lo <..< length h}. totalDurationUs (h ! k) < totalDurationUs (h ! lo)")
    case True
    then show ?thesis
      using Suc.prems
      by (auto simp: suffix_maxima_step set rest less_imp_le intro!: Max_eqI [symmetric])
  next
    case False
    then obtain k where k: "k \<in> {lo <..< length h}" "totalDurationUs (h ! lo) \<le> totalDurationUs (h ! k)"
      by force
    with Suc have IH: "suffix_maxima h (Suc lo) \<noteq> []"
      "totalDurationUs (h ! hd (suffix_maxima h (Suc lo))) = Max (totalDurationUs ` set (drop (Suc lo) h))"
      by auto
    have "totalDurationUs (h ! lo) \<le> Max (totalDurationUs ` set (drop (Suc lo) h))"
      using k by (auto simp: rest intro!: Max_ge_iff [THEN iffD2])
    moreover have "set (drop (Suc lo) h) \<noteq> {}" using k by auto
    ultimately have "Max (totalDurationUs ` set (drop lo h)) = Max (totalDurationUs ` set (drop (Suc lo) h))"
      by (simp add: set max_absorb2)
    with IH False Suc.prems show ?thesis
      unfolding suffix_maxima_step [OF Suc.prems] by (simp only: if_False append_Nil) simp
  qed
qed simp

lemma rev_dropWhile_rev:
  assumes "sorted_wrt (\<lambda>a b. P a \<longrightarrow> P b) xs"
  shows "rev (dropWhile P (rev xs)) = filter (\<lambda>x. \<not> P x) xs"
  using assms by (induction xs rule: rev_induct) (auto simp: sorted_wrt_append filter_id_conv)

section \<open>Adding a record\<close>

text \<open>The state between the two halves: the oldest of a full ring is out of the statistics.\<close>

lemma drop_oldest_rep:
  assumes rep: "records_rep h r" and K: "K = nat (kMaxNumOfRecords r)"
  obtains q where "drop_oldest r = Some (r\<lparr>
      mSumOfDurationsUs := sum_list (map totalDurationUs (window (K - 1) h)),
      mNumOfMissedCycles := int (length (filter isMissedCycle (window (K - 1) h))),
      mNumOfFrames := int (min (length h) (K - 1)), mRecordsIndQueue := q\<rparr>)"
    "q = map (\<lambda>i. int (i mod K)) (suffix_maxima h (Suc (length h) - K))"
proof (cases "length h < K")
  case True
  with rep K have "drop_oldest r = Some r" by (auto simp: records_rep_def Let_def drop_oldest_def)
  moreover have "window (K - 1) h = window K h" "length h - K = Suc (length h) - K"
    "min (length h) (K - 1) = min (length h) K"
    using True by (auto simp: window_def)
  ultimately show thesis using rep K that by (simp add: records_rep_def Let_def)
next
  case False
  let ?lo = "length h - K" and ?ring = "\<lambda>i. int (i mod K)"
  have K0: "0 < K" and kK: "kMaxNumOfRecords r = int K"
    using rep K by (auto simp: records_rep_def Let_def)
  then have lo: "?lo < length h" and lo1: "Suc (length h) - K = Suc ?lo"
    using False by auto
  have i: "(mLatestRecordIndex r + 1) smod kMaxNumOfRecords r = ?ring ?lo"
  proof -
    have "mLatestRecordIndex r = (if length h = 0 then - 1 else int ((length h - 1) mod K))"
      using rep K by (simp add: records_rep_def Let_def)
    then have "(mLatestRecordIndex r + 1) smod kMaxNumOfRecords r = int (length h mod K)"
      using ring_next [OF K0, of "length h"] by (simp only: kK)
    moreover have "length h mod K = ?lo mod K" using False by (metis le_mod_geq not_less)
    ultimately show ?thesis by simp
  qed
  have win: "window K h = h ! ?lo # window (K - 1) h"
    using window_Suc [of "K - 1" h] K0 False by simp
  have old: "mRecords r ! (?lo mod K) = h ! ?lo"
    using rep K K0 lo False by (auto simp: records_rep_def Let_def)
  have q: "mRecordsIndQueue r = map ?ring (suffix_maxima h ?lo)" and ne: "suffix_maxima h ?lo \<noteq> []"
    using rep K suffix_maxima_head [OF lo] by (auto simp: records_rep_def Let_def)
  have q': "(if hd (mRecordsIndQueue r) = ?ring ?lo then tl (mRecordsIndQueue r) else mRecordsIndQueue r)
      = map ?ring (suffix_maxima h (Suc ?lo))"
  proof (cases "\<forall>k \<in> {?lo <..< length h}. totalDurationUs (h ! k) < totalDurationUs (h ! ?lo)")
    case True
    then show ?thesis using q suffix_maxima_step [OF lo] by simp
  next
    case False
    then have sm: "suffix_maxima h ?lo = suffix_maxima h (Suc ?lo)"
      unfolding suffix_maxima_step [OF lo] by (simp only: if_False append_Nil)
    then have "?lo < hd (suffix_maxima h ?lo)" "hd (suffix_maxima h ?lo) < length h"
      using ne suffix_maxima_bounds [of "hd (suffix_maxima h ?lo)" h "Suc ?lo"] by auto
    then have "hd (suffix_maxima h ?lo) mod K \<noteq> ?lo mod K"
      using ring_neq [of ?lo "hd (suffix_maxima h ?lo)" K] by force
    with q sm ne show ?thesis by (simp add: hd_map)
  qed
  have "mNumOfFrames r = int (min (length h) K)" using rep K by (simp add: records_rep_def Let_def)
  then have frames: "mNumOfFrames r = int K" "int (min (length h) (K - 1)) = int K - 1"
    using False K0 by (simp_all add: min_absorb2 of_nat_diff)
  have sums: "mSumOfDurationsUs r = sum_list (map totalDurationUs (window K h))"
    "mNumOfMissedCycles r = int (length (filter isMissedCycle (window K h)))"
    using rep K by (simp_all add: records_rep_def Let_def)
  have "mRecordsIndQueue r \<noteq> []" using q ne by simp
  then have "drop_oldest r = Some (r\<lparr>
      mSumOfDurationsUs := mSumOfDurationsUs r - totalDurationUs (h ! ?lo),
      mNumOfMissedCycles := mNumOfMissedCycles r - (if isMissedCycle (h ! ?lo) then 1 else 0),
      mNumOfFrames := mNumOfFrames r - 1, mRecordsIndQueue := map ?ring (suffix_maxima h (Suc ?lo))\<rparr>)"
    using K0 unfolding drop_oldest_def Let_def i nat_int old q' by (simp add: frames kK)
  also have "mSumOfDurationsUs r - totalDurationUs (h ! ?lo) = sum_list (map totalDurationUs (window (K - 1) h))"
    by (simp add: sums win)
  also have "mNumOfMissedCycles r - (if isMissedCycle (h ! ?lo) then 1 else 0) =
      int (length (filter isMissedCycle (window (K - 1) h)))"
    by (simp add: sums win)
  also have "mNumOfFrames r - 1 = int (min (length h) (K - 1))"
    by (simp only: frames)
  finally show thesis by (rule that) (simp only: lo1)
qed

lemma pop_not_greater_ring:
  assumes "\<And>i. i \<in> set (suffix_maxima h lo) \<Longrightarrow> recs ! (i mod K) = h ! i"
  shows "pop_not_greater recs v (map (\<lambda>i. int (i mod K)) (suffix_maxima h lo)) =
    map (\<lambda>i. int (i mod K)) (filter (\<lambda>i. v < totalDurationUs (h ! i)) (suffix_maxima h lo))"
proof -
  let ?P = "\<lambda>i. totalDurationUs (recs ! nat i) \<le> v"
  let ?q = "map (\<lambda>i. int (i mod K)) (suffix_maxima h lo)"
  have "sorted_wrt (\<lambda>i j. ?P (int (i mod K)) \<longrightarrow> ?P (int (j mod K))) (suffix_maxima h lo)"
    by (rule sorted_wrt_mono_rel [OF _ suffix_maxima_desc]) (simp add: assms)
  then have "pop_not_greater recs v ?q = filter (\<lambda>i. \<not> ?P i) ?q"
    unfolding pop_not_greater_def by (intro rev_dropWhile_rev) (simp add: sorted_wrt_map)
  also have "\<dots> = map (\<lambda>i. int (i mod K)) (filter (\<lambda>i. v < totalDurationUs (h ! i)) (suffix_maxima h lo))"
    by (simp add: filter_map comp_def assms not_le cong: filter_cong)
  finally show ?thesis .
qed

lemma records_repI:
  assumes "0 < K" and "kMaxNumOfRecords r = int K" and "length (mRecords r) = K"
    and "mNumOfFrames r = int (min (length h) K)"
    and "mLatestRecordIndex r = (if length h = 0 then - 1 else int ((length h - 1) mod K))"
    and "\<And>i. length h \<le> i + K \<Longrightarrow> i < length h \<Longrightarrow> mRecords r ! (i mod K) = h ! i"
    and "mRecordsIndQueue r = map (\<lambda>i. int (i mod K)) (suffix_maxima h (length h - K))"
    and "mSumOfDurationsUs r = sum_list (map totalDurationUs (window K h))"
    and "mNumOfMissedCycles r = int (length (filter isMissedCycle (window K h)))"
    and "mAvgDurationUs r = (if length h = 0 then 0 else
      to_i32 (sum_list (map totalDurationUs (window K h)) sdiv int (min (length h) K)))"
    and "\<forall>x \<in> set h. in_signed 32 (totalDurationUs x)"
  shows "records_rep h r"
  unfolding records_rep_def Let_def assms(2) nat_int
  using assms by (simp only: of_nat_0_less_iff) blast

lemma records_repD:
  assumes "records_rep h r" and "K = nat (kMaxNumOfRecords r)"
  shows "0 < K" "kMaxNumOfRecords r = int K" "length (mRecords r) = K"
    "mNumOfFrames r = int (min (length h) K)"
    "mLatestRecordIndex r = (if length h = 0 then - 1 else int ((length h - 1) mod K))"
    "length h \<le> i + K \<Longrightarrow> i < length h \<Longrightarrow> mRecords r ! (i mod K) = h ! i"
    "mRecordsIndQueue r = map (\<lambda>i. int (i mod K)) (suffix_maxima h (length h - K))"
    "mSumOfDurationsUs r = sum_list (map totalDurationUs (window K h))"
    "mNumOfMissedCycles r = int (length (filter isMissedCycle (window K h)))"
    "mAvgDurationUs r = (if length h = 0 then 0 else
      to_i32 (sum_list (map totalDurationUs (window K h)) sdiv int (min (length h) K)))"
    "\<forall>x \<in> set h. in_signed 32 (totalDurationUs x)"
  using assms(1) unfolding records_rep_def Let_def assms(2) by auto

lemma records_rep_init: "0 < K \<Longrightarrow> records_rep [] (SessionRecords_init K f)"
  by (rule records_repI [of "nat K"]) (simp_all add: SessionRecords_init_def suffix_maxima_def window_def)

lemma addReportedDuration_rep:
  assumes rep: "records_rep h r"
  obtains r' where "addReportedDuration d t r = Some r'"
    "records_rep (h @ [next_record d t h r]) r'"
    "mLastStartTimeNs r' = timeStampNanos d - durationNanos d"
    "kMaxNumOfRecords r' = kMaxNumOfRecords r" "kJankCheckTimeFactor r' = kJankCheckTimeFactor r"
proof -
  define K where "K = nat (kMaxNumOfRecords r)"
  note D = records_repD [OF rep K_def]
  define x where "x = next_record d t h r"
  define recs where "recs = (mRecords r)[length h mod K := x]"
  define q where "q = map (\<lambda>i. int (i mod K)) (suffix_maxima h (Suc (length h) - K))"
  define sum where "sum = sum_list (map totalDurationUs (window (K - 1) h)) + totalDurationUs x"
  define r' where "r' = r\<lparr>mLatestRecordIndex := int (length h mod K),
      mLastStartTimeNs := timeStampNanos d - durationNanos d, mRecords := recs,
      mNumOfFrames := int (min (length h) (K - 1)) + 1,
      mNumOfMissedCycles := int (length (filter isMissedCycle (window (K - 1) h)))
        + (if isMissedCycle x then 1 else 0),
      mRecordsIndQueue := pop_not_greater recs (totalDurationUs x) q @ [int (length h mod K)],
      mSumOfDurationsUs := sum,
      mAvgDurationUs := to_i32 (sum sdiv (int (min (length h) (K - 1)) + 1))\<rparr>"
  have latest: "(mLatestRecordIndex r + 1) smod int K = int (length h mod K)"
    unfolding D(5) by (rule ring_next [OF D(1)])
  have frames: "int (min (length h) (K - Suc 0)) + 1 = int (min (Suc (length h)) K)" using D(1) by auto
  have interval: "0 < min (length h) (K - 1) \<longleftrightarrow> h \<noteq> [] \<and> 1 < int K" by auto
  have "addReportedDuration d t r = Some r'"
    by (rule drop_oldest_rep [OF rep K_def], unfold addReportedDuration_def Let_def)
      (simp add: latest D(1,2) interval r'_def recs_def q_def sum_def x_def next_record_def Let_def
        cycle_missed_def cong: if_cong)
  moreover have "records_rep (h @ [x]) r'"
  proof (rule records_repI [of K])
    have old: "recs ! (i mod K) = h ! i" if "Suc (length h) \<le> i + K" "i < length h" for i
      using D(6) [of i] ring_neq [of i "length h" K] that by (simp add: recs_def)
    then show "mRecords r' ! (i mod K) = (h @ [x]) ! i"
      if "length (h @ [x]) \<le> i + K" "i < length (h @ [x])" for i
      using that D(1,3) by (cases "i = length h") (auto simp: r'_def recs_def nth_append)
    have "pop_not_greater recs (totalDurationUs x) q =
        map (\<lambda>i. int (i mod K)) (filter (\<lambda>i. totalDurationUs x < totalDurationUs (h ! i))
          (suffix_maxima h (Suc (length h) - K)))"
      unfolding q_def by (rule pop_not_greater_ring) (auto dest!: suffix_maxima_bounds intro: old)
    then show "mRecordsIndQueue r' =
        map (\<lambda>i. int (i mod K)) (suffix_maxima (h @ [x]) (length (h @ [x]) - K))"
      using D(1) by (simp add: r'_def suffix_maxima_snoc)
  qed (use D(1-3,11) in \<open>simp_all add: r'_def recs_def sum_def window_snoc frames x_def
      next_record_def Let_def to_signed_range\<close>)
  ultimately show thesis by (rule that [unfolded x_def [symmetric]]) (simp_all add: r'_def)
qed

lemma addReportedDurations_rep:
  assumes "records_rep h r"
  shows "\<exists>r' xs. addReportedDurations ds t r = Some r' \<and> records_rep (h @ xs) r'
    \<and> map totalDurationUs xs = map (\<lambda>d. to_i32 (durationNanos d sdiv 1000)) ds
    \<and> kMaxNumOfRecords r' = kMaxNumOfRecords r"
  using assms
proof (induction ds arbitrary: h r)
  case (Cons d ds)
  obtain r1 where r1: "addReportedDuration d t r = Some r1"
    "records_rep (h @ [next_record d t h r]) r1" "kMaxNumOfRecords r1 = kMaxNumOfRecords r"
    using Cons.prems by (rule addReportedDuration_rep)
  obtain r' xs where r': "addReportedDurations ds t r1 = Some r'"
    "records_rep ((h @ [next_record d t h r]) @ xs) r'"
    "map totalDurationUs xs = map (\<lambda>d. to_i32 (durationNanos d sdiv 1000)) ds"
    "kMaxNumOfRecords r' = kMaxNumOfRecords r1"
    using Cons.IH [OF r1(2)] by blast
  show ?case
    by (rule exI [of _ r'], rule exI [of _ "next_record d t h r # xs"])
      (use r1 r' in \<open>simp add: next_record_def Let_def\<close>)
qed simp

section \<open>Queries\<close>

lemma sdiv_in_signed:
  fixes a :: int and n b :: nat
  assumes "0 < b" and "- int n * 2 ^ (b - 1) \<le> a" and "a \<le> int n * (2 ^ (b - 1) - 1)" and "0 < n"
  shows "in_signed b (a sdiv int n)"
proof (cases "0 \<le> a")
  case True
  then have "a sdiv int n = a div int n" by (cases "a = 0") (auto simp: signed_divide_int_def sgn_if)
  moreover have "a div int n \<le> (int n * (2 ^ (b - 1) - 1)) div int n"
    using assms by (intro zdiv_mono1) auto
  moreover have "- (2 ^ (b - 1)) \<le> (0 :: int)" "0 \<le> a div int n"
    using True assms(4) by (simp_all add: pos_imp_zdiv_nonneg_iff)
  ultimately show ?thesis using assms(4) by (simp add: in_signed_def)
next
  case False
  then have eq: "a sdiv int n = - ((- a) div int n)" using assms(4) by (simp add: signed_divide_int_def)
  have "(- a) div int n \<le> (int n * 2 ^ (b - 1)) div int n" using assms by (intro zdiv_mono1) auto
  then have "(- a) div int n \<le> 2 ^ (b - 1)" using assms(4) by simp
  moreover have "0 \<le> (- a) div int n" using False assms(4) by (simp add: pos_imp_zdiv_nonneg_iff)
  ultimately show ?thesis unfolding eq in_signed_def using zero_less_power [of "2 :: int" "b - 1"] by linarith
qed

lemma sum_list_bounds:
  fixes xs :: "int list"
  assumes "\<forall>x \<in> set xs. lo \<le> x \<and> x \<le> hi"
  shows "int (length xs) * lo \<le> sum_list xs" "sum_list xs \<le> int (length xs) * hi"
  using assms by (induction xs) (auto simp: algebra_simps)

lemma length_window: "length (window K h) = min (length h) K"
  by (auto simp: window_def)

lemma getAvgDuration_window:
  assumes rep: "records_rep h r" and h: "h \<noteq> []" and w: "w = window (nat (kMaxNumOfRecords r)) h"
  shows "getAvgDuration r = Some (sum_list (map totalDurationUs w) sdiv int (length w))"
proof -
  let ?K = "nat (kMaxNumOfRecords r)"
  note D = records_repD [OF rep refl]
  have n: "0 < length w" "length w = min (length h) ?K" using D(1) h by (simp_all add: w length_window)
  have "\<forall>x \<in> set (map totalDurationUs w). - (2 ^ 31) \<le> x \<and> x \<le> 2 ^ 31 - 1"
    using D(11) set_drop_subset [of _ h] by (fastforce simp: w window_def in_signed_def)
  then have "in_signed 32 (sum_list (map totalDurationUs w) sdiv int (length w))"
    using sum_list_bounds [of "map totalDurationUs w" "- (2 ^ 31)" "2 ^ 31 - 1"] n(1)
    by (intro sdiv_in_signed) auto
  then have "mAvgDurationUs r = sum_list (map totalDurationUs w) sdiv int (length w)"
    using h D(10) by (simp add: w [symmetric] n(2) [symmetric] to_signed_id)
  then show ?thesis using D(1,4) h by (simp add: getAvgDuration_def)
qed

lemma getMaxDuration_window:
  assumes rep: "records_rep h r" and h: "h \<noteq> []"
  shows "getMaxDuration r = Some (Max (totalDurationUs ` set (window (nat (kMaxNumOfRecords r)) h)))"
proof -
  let ?K = "nat (kMaxNumOfRecords r)" and ?lo = "length h - nat (kMaxNumOfRecords r)"
  note D = records_repD [OF rep refl]
  have lo: "?lo < length h" using D(1) h by simp
  note head = suffix_maxima_head [OF lo]
  then obtain i rest where i: "suffix_maxima h ?lo = i # rest" by (cases "suffix_maxima h ?lo") auto
  then have "length h \<le> i + ?K" "i < length h" using suffix_maxima_bounds [of i h ?lo] by auto
  then have "mRecords r ! (i mod ?K) = h ! i" by (rule D(6))
  with head i D(7) show ?thesis by (simp add: getMaxDuration_def window_def)
qed

lemma isLowFrameRate_last:
  assumes rep: "records_rep h r"
  shows "isLowFrameRate fps r \<longleftrightarrow> 3 \<le> length h \<and> 3 \<le> kMaxNumOfRecords r \<and>
    (\<forall>x \<in> set (window 3 h). fp_le (fp_div f64 (Fin 1000000) (fp_of_int f64 fps))
       (fp_of_int f64 (startIntervalUs x)))"
proof (cases "3 \<le> length h \<and> 3 \<le> kMaxNumOfRecords r")
  case False
  with records_repD(2,4) [OF rep refl] show ?thesis by (auto simp: isLowFrameRate_def Let_def)
next
  case True
  define K n where "K = nat (kMaxNumOfRecords r)" and "n = length h"
  define P where "P x \<longleftrightarrow> fp_le (fp_div f64 (Fin 1000000) (fp_of_int f64 fps))
      (fp_of_int f64 (startIntervalUs x))" for x :: CycleRecord
  note D = records_repD [OF rep K_def]
  have n: "3 \<le> n" "3 \<le> K" "h \<noteq> []" using True by (auto simp: n_def K_def)
  have idx: "mRecords r ! ((n - Suc j) mod K) = h ! (n - Suc j)" if "j < 3" for j
    using D(6) [of "n - Suc j"] n that by (simp add: n_def)
  have prev: "(if int (a mod K) = 0 then kMaxNumOfRecords r - 1 else int (a mod K) - 1) = int ((a - 1) mod K)"
    if "0 < a" for a
    using ring_prev [OF D(1) that] D(1,2) by (auto simp: of_nat_diff split: if_splits)
  have ind: "mLatestRecordIndex r = int ((n - 1) mod K)" using D(5) n by (simp add: n_def)
  have "window 3 h = [h ! (n - 3), h ! (n - 2), h ! (n - 1)]"
    using window_Suc [of 2 h] window_Suc [of 1 h] window_Suc [of 0 h] n
    by (simp add: n_def numeral_3_eq_3 numeral_2_eq_2) (simp add: window_def)
  moreover have "isLowFrameRate fps r \<longleftrightarrow> P (mRecords r ! ((n - 1) mod K))
      \<and> P (mRecords r ! ((n - 2) mod K)) \<and> P (mRecords r ! ((n - 3) mod K))"
  proof -
    have "n - 1 - 1 = n - 2" "n - 2 - 1 = n - 3" "0 < n - 1" "0 < n - 2" using n by auto
    note prev1 = prev [OF this(3), unfolded this] and prev2 = prev [OF this(4), unfolded this]
    have "3 \<le> mNumOfFrames r" using D(4) n by (simp add: n_def)
    then show ?thesis
      unfolding isLowFrameRate_def Let_def ind prev1 prev2 nat_int P_def by simp
  qed
  moreover have "mRecords r ! ((n - 1) mod K) = h ! (n - 1)" "mRecords r ! ((n - 2) mod K) = h ! (n - 2)"
    "mRecords r ! ((n - 3) mod K) = h ! (n - 3)"
    using idx [of 0] idx [of 1] idx [of 2] by (simp_all add: numeral_2_eq_2 numeral_3_eq_3)
  ultimately show ?thesis using True unfolding P_def by auto
qed

section \<open>Properties\<close>



text \<open>
  C16: Every query of \<open>SessionRecords\<close> is the plain statistic of the last
  \<open>kMaxNumOfRecords\<close> records: their number, their longest duration, their average (rounded
  towards zero, never losing bits in the narrowing to 32 bits) and the number of missed
  cycles among them. So the ring buffer, the running sums and the descending index queue
  implement a recomputation over that window.
\<close>
theorem records_statistics:
  assumes "records_rep h r" and "h \<noteq> []" and "w = window (nat (kMaxNumOfRecords r)) h"
  shows "getNumOfRecords r = int (length w)
    \<and> getMaxDuration r = Some (Max (totalDurationUs ` set w))
    \<and> getAvgDuration r = Some (sum_list (map totalDurationUs w) sdiv int (length w))
    \<and> getNumOfMissedCycles r = int (length (filter isMissedCycle w))"
  using getMaxDuration_window [OF assms(1,2)] getAvgDuration_window [OF assms]
    records_repD(4,9) [OF assms(1) refl] assms(3)
  by (simp add: getNumOfRecords_def getNumOfMissedCycles_def length_window)

theorem records_statistics_witness:
  "\<exists>r. addReportedDurations
       [work 9000 5000, work 19000 7000,
        work 29000 3000] 6000 (SessionRecords_init 2 (Fin 1)) = Some r
     \<and> getMaxDuration r = Some 7 \<and> getAvgDuration r = Some 5"
proof -
  have rep: "records_rep [] (SessionRecords_init 2 (Fin 1))" by (rule records_rep_init) simp
  let ?ds = "[work 9000 5000,
      work 19000 7000, work 29000 3000]"
  obtain r xs where r: "addReportedDurations ?ds 6000 (SessionRecords_init 2 (Fin 1)) = Some r"
      "records_rep xs r" "map totalDurationUs xs = [5, 7, 3]" "kMaxNumOfRecords r = 2"
    using addReportedDurations_rep [OF rep, of ?ds 6000]
    by (auto simp: to_signed_def SessionRecords_init_def work_def)
  from r(3) obtain a b c where xs: "xs = [a, b, c]" "totalDurationUs b = 7" "totalDurationUs c = 3"
    by (auto simp: map_eq_Cons_conv)
  then have w: "window 2 xs = [b, c]" and ne: "xs \<noteq> []" by (simp_all add: window_def)
  have "window (nat (kMaxNumOfRecords r)) xs = [b, c]" using r(4) w by simp
  from records_statistics [OF r(2) ne this [symmetric]] r(1) xs show ?thesis
    by (simp add: signed_divide_int_def)
qed

text \<open>
  \<open>isLowFrameRate\<close> holds exactly when at least three records are kept and each of the
  last three started at least one threshold period after its predecessor. Comparing with
  the quotient in double precision is well defined for every threshold; for the threshold
  zero the period is infinite.
\<close>
theorem isLowFrameRate_last_three:
  assumes "records_rep h r"
  shows "isLowFrameRate fps r \<longleftrightarrow> 3 \<le> length h \<and> 3 \<le> kMaxNumOfRecords r \<and>
    (\<forall>x \<in> set (window 3 h). fp_le (fp_div f64 (Fin 1000000) (fp_of_int f64 fps))
       (fp_of_int f64 (startIntervalUs x)))"
  by (rule isLowFrameRate_last [OF assms])

theorem isLowFrameRate_last_three_witness:
  "records_rep [] (SessionRecords_init 5 (Fin 1)) \<and> \<not> isLowFrameRate 25 (SessionRecords_init 5 (Fin 1))"
proof -
  have rep: "records_rep [] (SessionRecords_init 5 (Fin 1))" by (rule records_rep_init) simp
  with isLowFrameRate_last_three [OF rep, of 25] show ?thesis by simp
qed

text \<open>
  The missed-cycle test in double precision is monotone: with a non-negative factor, a
  cycle that is not shorter, against a target that is not longer, stays missed. Rounding
  cannot turn a worse cycle into a better one.
\<close>
theorem cycle_missed_mono:
  assumes "kJankCheckTimeFactor r = Fin f" and "0 \<le> f" and "us \<le> us'" and "0 \<le> t'" and "t' \<le> t"
    and "t < 1000 * 2 ^ 53" and "cycle_missed r us t"
  shows "cycle_missed r us' t'"
proof -
  let ?n = "\<lambda>t. t sdiv 1000"
  have F: "0 < prec f64" by (simp add: f64_def)
  have le: "0 \<le> ?n t'" "?n t' \<le> ?n t" "?n t < 2 ^ 53"
    using assms(4-6) by (auto simp: signed_divide_int_def sgn_if zdiv_mono1)
  then have fin: "fp_of_int f64 (?n t) = Fin (of_int (?n t))" "fp_of_int f64 (?n t') = Fin (of_int (?n t'))"
    by (simp_all add: f64_of_int)
  have "fp_le (fp_mul f64 (fp_of_int f64 (?n t')) (Fin f)) (fp_mul f64 (fp_of_int f64 (?n t)) (Fin f))"
    unfolding fin fp_mul.simps using le assms(2) by (intro fp_le_round [OF F] mult_right_mono) simp_all
  moreover have "fp_le (fp_of_int f64 us) (fp_of_int f64 us')"
    unfolding fp_of_int_def using assms(3) by (intro fp_le_round [OF F]) simp
  ultimately show ?thesis
    using assms(7) unfolding cycle_missed_def assms(1)
    by (blast intro: fp_le_less_trans fp_less_le_trans)
qed

theorem cycle_missed_mono_witness:
  "cycle_missed (SessionRecords_init 5 (Fin 2)) 21 10000
   \<and> cycle_missed (SessionRecords_init 5 (Fin 2)) 22 9000"
proof -
  have "fp_round f64 20 = Fin 20" using f64_round_of_int [of 20] by simp
  then have missed: "cycle_missed (SessionRecords_init 5 (Fin 2)) 21 10000"
    by (simp add: cycle_missed_def SessionRecords_init_def f64_of_int)
  have "kJankCheckTimeFactor (SessionRecords_init 5 (Fin 2)) = Fin 2"
    by (simp add: SessionRecords_init_def)
  then have "cycle_missed (SessionRecords_init 5 (Fin 2)) 22 9000"
    by (rule cycle_missed_mono [OF _ _ _ _ _ _ missed]) simp_all
  with missed show ?thesis by simp
qed

end
