(* ===== verification/Decimal.thy ===== *)
theory Decimal
  imports Prelude
begin

text \<open>
  The conversions between integers and text the sources use: \<open>std::to_string\<close>,
  \<open>std::from_chars\<close> on \<open>int\<close>, and the extraction of an \<open>int\<close> from a stream.
\<close>

section \<open>Definitions\<close>

definition digit :: "nat \<Rightarrow> char" where
  "digit d = char_of (48 + d)"

definition digit_val :: "char \<Rightarrow> nat option" where
  "digit_val c = (let n = of_char c :: nat in if 48 \<le> n \<and> n \<le> 57 then Some (n - 48) else None)"

fun show_nat :: "nat \<Rightarrow> string" where
  "show_nat n = (if n < 10 then [digit n] else show_nat (n div 10) @ [digit (n mod 10)])"

declare show_nat.simps [simp del]

definition show_int :: "int \<Rightarrow> string" where
  "show_int i = (if i < 0 then CHR ''-'' # show_nat (nat (- i)) else show_nat (nat i))"

fun parse_digits :: "nat \<Rightarrow> string \<Rightarrow> nat" where
  "parse_digits acc [] = acc"
| "parse_digits acc (c # cs) =
     (case digit_val c of None \<Rightarrow> acc | Some d \<Rightarrow> parse_digits (10 * acc + d) cs)"

definition parse_nat :: "string \<Rightarrow> nat option" where
  "parse_nat s =
     (case s of [] \<Rightarrow> None | c # _ \<Rightarrow> if digit_val c = None then None else Some (parse_digits 0 s))"

definition from_chars :: "string \<Rightarrow> int option" where
  "from_chars s =
     (let (neg, body) = (case s of c # cs \<Rightarrow> if c = CHR ''-'' then (True, cs) else (False, s) | [] \<Rightarrow> (False, []))
      in case parse_nat body of
           None \<Rightarrow> None
         | Some n \<Rightarrow> let v = (if neg then - int n else int n) in if in_signed 32 v then Some v else None)"

text \<open>
  \<open>stream >> value\<close> for an \<open>int\<close>: leading white space is skipped; with nothing left the
  value is not assigned (\<open>None\<close>), text that is no number assigns 0, and a number that does
  not fit assigns the nearest \<open>int\<close>.
\<close>

definition is_space :: "char \<Rightarrow> bool" where
  "is_space c = (let n = of_char c :: nat in n = 32 \<or> 9 \<le> n \<and> n \<le> 13)"

definition stream_int :: "string \<Rightarrow> int option" where
  "stream_int s =
     (case dropWhile is_space s of
        [] \<Rightarrow> None
      | c # cs \<Rightarrow>
          let neg = (c = CHR ''-'');
              body = (if c \<in> {CHR ''-'', CHR ''+''} then cs else c # cs)
          in case parse_nat body of
               None \<Rightarrow> Some 0
             | Some n \<Rightarrow> Some (max (- (2 ^ 31)) (min (2 ^ 31 - 1) (if neg then - int n else int n))))"

section \<open>Reading back what was printed\<close>

lemma digit_val_digit [simp]: "d < 10 \<Longrightarrow> digit_val (digit d) = Some d"
  by (simp add: digit_val_def digit_def Let_def)

lemma parse_digits_app:
  assumes "\<forall>c \<in> set xs. digit_val c \<noteq> None"
  shows "parse_digits acc (xs @ ys) = parse_digits (parse_digits acc xs) ys"
  using assms by (induction xs arbitrary: acc) (auto split: option.splits)

lemma show_nat_digits: "c \<in> set (show_nat n) \<Longrightarrow> digit_val c \<noteq> None"
proof (induction n rule: show_nat.induct)
  case (1 n)
  then show ?case by (subst (asm) (2) show_nat.simps) (auto split: if_splits)
qed

lemma parse_digits_show: "parse_digits 0 (show_nat n) = n"
proof (induction n rule: show_nat.induct)
  case (1 n)
  show ?case
  proof (cases "n < 10")
    case False
    with 1 have "parse_digits 0 (show_nat (n div 10)) = n div 10" by simp
    with False show ?thesis
      by (subst show_nat.simps) (simp add: parse_digits_app show_nat_digits)
  qed (simp add: show_nat.simps)
qed

lemma show_nat_not_Nil [simp]: "show_nat n \<noteq> []"
  by (subst show_nat.simps) simp

lemma parse_show_nat:
  assumes "rest = [] \<or> digit_val (hd rest) = None"
  shows "parse_nat (show_nat n @ rest) = Some n"
proof -
  obtain c cs where c: "show_nat n = c # cs" by (meson neq_Nil_conv show_nat_not_Nil)
  then have "digit_val c \<noteq> None" using show_nat_digits [of c n] by simp
  moreover have "parse_digits 0 (show_nat n @ rest) = n"
    using assms by (cases rest) (simp_all add: parse_digits_app show_nat_digits parse_digits_show)
  ultimately show ?thesis using c by (auto simp: parse_nat_def)
qed

lemma minus_not_digit: "digit_val (CHR ''-'') = None"
  by code_simp

lemma from_chars_show:
  assumes "in_signed 32 i" and "rest = [] \<or> digit_val (hd rest) = None"
  shows "from_chars (show_int i @ rest) = Some i"
proof (cases "i < 0")
  case True
  then show ?thesis using assms parse_show_nat [OF assms(2), of "nat (- i)"]
    by (simp add: from_chars_def show_int_def)
next
  case False
  obtain c cs where c: "show_nat (nat i) = c # cs" by (meson neq_Nil_conv show_nat_not_Nil)
  then have "c \<noteq> CHR ''-''" using show_nat_digits [of c "nat i"] minus_not_digit by auto
  with False c assms parse_show_nat [OF assms(2), of "nat i"] show ?thesis
    by (auto simp: from_chars_def show_int_def)
qed

lemma sign_not_digit: "digit_val (CHR ''+'') = None"
  by code_simp

lemma space_not_digit: "digit_val c \<noteq> None \<Longrightarrow> \<not> is_space c"
  by (auto simp: digit_val_def is_space_def Let_def split: if_splits)

lemma stream_int_show:
  assumes "0 \<le> i" and "in_signed 32 i" and "rest = [] \<or> digit_val (hd rest) = None"
  shows "stream_int (show_int i @ rest) = Some i"
proof -
  obtain c cs where c: "show_nat (nat i) = c # cs" by (meson neq_Nil_conv show_nat_not_Nil)
  then have d: "digit_val c \<noteq> None" using show_nat_digits [of c "nat i"] by simp
  then have "c \<notin> {CHR ''-'', CHR ''+''}" using minus_not_digit sign_not_digit by auto
  with c d assms parse_show_nat [OF assms(3), of "nat i"] show ?thesis
    by (auto simp: stream_int_def show_int_def space_not_digit in_signed_def)
qed

end
