(* ===== verification/GpuCapacity.thy ===== *)
theory GpuCapacity
  imports SessionRecords Decimal
begin

text \<open>
  \<^verbatim>\<open>power-libperfmgr/aidl/GpuCalculationHelpers.{h,cpp}\<close>, the chrono operators of
  \<^verbatim>\<open>PhysicalQuantityTypes.h\<close> and \<^verbatim>\<open>GpuCapacityNode.{h,cpp}\<close>: how much GPU capacity a late
  frame asks for, and the kernel node it is written to.

  The arithmetic follows the C++ types: durations are 64-bit integers until they are cast
  to \<open>float\<close> or \<open>double\<close>, and every operation rounds in the format of its operands. A
  result that does not fit the integer it is converted to is undefined, and is \<open>None\<close>.
  The file interface \<open>FdInterface\<close> is a record of what the calls return.
\<close>

section \<open>Definitions\<close>

subsection \<open>Capacity of a late frame\<close>

definition gpu_time_attribution :: "int \<Rightarrow> int \<Rightarrow> fp" where
  "gpu_time_attribution totalNs gpu =
     (if totalNs = 0 then Fin 0 else fp_div f64 (fp_of_int f64 gpu) (fp_of_int f64 totalNs))"

definition lerp :: "int \<Rightarrow> int \<Rightarrow> fp \<Rightarrow> int option" where
  "lerp a b t =
     (let fa = fp_of_int f32 a; fb = fp_of_int f32 b in
      fp_to_int 64 (fp_add f32 fa (fp_mul f32 (fp_sub f32 fb fa) t)))"

definition sanitize_timings :: "int \<Rightarrow> int \<Rightarrow> int \<Rightarrow> int option" where
  "sanitize_timings totalNs cpu gpu =
     (let accounted_portion = cpu + gpu;
          unaccounted_portion = totalNs - accounted_portion
      in if unaccounted_portion > 0 then
           let cpu_portion = fp_div f32 (fp_of_int f32 cpu) (fp_of_int f32 accounted_portion)
           in lerp gpu (gpu + unaccounted_portion) (fp_conv f32 (fp_sub f64 (Fin 1) cpu_portion))
         else Some gpu)"

definition subtotal_timings_invalid :: "WorkDuration \<Rightarrow> bool" where
  "subtotal_timings_invalid observation \<longleftrightarrow>
     durationNanos observation < gpuDurationNanos observation \<or>
     durationNanos observation < cpuDurationNanos observation"

text \<open>\<open>Frequency * duration\<close>: the duration in seconds as a \<open>float\<close>, the product as an \<open>int\<close>.\<close>

definition frequency_times :: "int \<Rightarrow> fp \<Rightarrow> int option" where
  "frequency_times freq timeNs =
     (let seconds = fp_conv f32 (fp_div f64 timeNs (Fin 1000000000))
      in fp_to_int 32 (fp_mul f32 (fp_of_int f32 freq) seconds))"

definition calculate_capacity :: "WorkDuration \<Rightarrow> int \<Rightarrow> int \<Rightarrow> int option" where
  "calculate_capacity observation target gpu_frequency =
     (let totalNs = durationNanos observation;
          overrun = fp_of_int f32 (totalNs - target)
      in if fp_less overrun (Fin 0) \<or> subtotal_timings_invalid observation then Some 0
         else case sanitize_timings totalNs (cpuDurationNanos observation) (gpuDurationNanos observation) of
           None \<Rightarrow> None
         | Some gpu \<Rightarrow>
             let gpu_delta = fp_mul f64 overrun (gpu_time_attribution totalNs gpu)
             in frequency_times gpu_frequency gpu_delta)"

subsection \<open>The capacity node\<close>

text \<open>
  What the calls of \<open>FdInterface\<close> return. \<open>fd_read\<close> takes the number of reads so far and
  the size asked for; it gives the bytes read, none at the end of the file, or \<open>None\<close> for
  an error.
\<close>

record FdInterface =
  fd_open :: "string \<Rightarrow> int"
  fd_write :: "int \<Rightarrow> string \<Rightarrow> int"
  fd_read :: "nat \<Rightarrow> nat \<Rightarrow> string option"
  fd_lseek :: "int \<Rightarrow> int"

record GpuCapacityNode =
  capacity_node_path :: string
  capacity_headroom_fd :: int
  frequency_fd :: int

text \<open>The second component lists the descriptors that were closed again.\<close>

definition init_gpu_capacity_node ::
  "FdInterface \<Rightarrow> string \<Rightarrow> GpuCapacityNode option \<times> int list" where
  "init_gpu_capacity_node fdi gpu_node_dir =
     (let cap_fd = fd_open fdi (gpu_node_dir @ ''/capacity_headroom'') in
      if cap_fd < 0 then (None, [])
      else
        let freq_fd = fd_open fdi (gpu_node_dir @ ''/cur_freq'') in
        if freq_fd < 0 then (None, [cap_fd])
        else (Some \<lparr>capacity_node_path = gpu_node_dir, capacity_headroom_fd = cap_fd,
                    frequency_fd = freq_fd\<rparr>, []))"

text \<open>The destructor closes both descriptors.\<close>

definition GpuCapacityNode_close :: "GpuCapacityNode \<Rightarrow> int list" where
  "GpuCapacityNode_close node = [frequency_fd node, capacity_headroom_fd node]"

definition set_gpu_capacity :: "FdInterface \<Rightarrow> GpuCapacityNode \<Rightarrow> int \<Rightarrow> bool" where
  "set_gpu_capacity fdi node capacity =
     (let rc = fd_write fdi (capacity_headroom_fd node) (show_int capacity) in rc = 0)"

text \<open>The read loop fills at most 15 of the 16 bytes of the buffer.\<close>

function read_loop :: "FdInterface \<Rightarrow> nat \<Rightarrow> string \<Rightarrow> string option" where
  "read_loop fdi k buffer =
     (if 15 \<le> length buffer then Some buffer
      else case fd_read fdi k (15 - length buffer) of
        None \<Rightarrow> None
      | Some bytes \<Rightarrow>
          if bytes = [] then Some buffer
          else read_loop fdi (Suc k) (buffer @ take (15 - length buffer) bytes))"
  by auto

termination
  by (relation "measure (\<lambda>(fdi, k, buffer). 15 - length buffer)") (auto simp: neq_Nil_conv)

declare read_loop.simps [simp del]

text \<open>The outer \<open>None\<close> is the undefined overflow of the product by 1000.\<close>

definition gpu_frequency :: "FdInterface \<Rightarrow> GpuCapacityNode \<Rightarrow> int option option" where
  "gpu_frequency fdi node =
     (case read_loop fdi 0 [] of
        None \<Rightarrow> Some None
      | Some bytes \<Rightarrow>
          if fd_lseek fdi (frequency_fd node) < 0 then Some None
          else case from_chars (bytes @ replicate (16 - length bytes) (char_of (0 :: nat))) of
            None \<Rightarrow> Some None
          | Some raw \<Rightarrow>
              if raw \<le> 0 then Some None
              else if in_signed 32 (raw * 1000) then Some (Some (raw * 1000)) else None)"

text \<open>
  \<open>createGpuCapacityNode\<close>: the optional is filled even when \<open>init_gpu_capacity_node\<close> gives
  the null pointer, the inner \<open>None\<close>.
\<close>

definition createGpuCapacityNode ::
  "FdInterface \<Rightarrow> string option \<Rightarrow> GpuCapacityNode option option" where
  "createGpuCapacityNode fdi path =
     (case path of None \<Rightarrow> None | Some p \<Rightarrow> Some (fst (init_gpu_capacity_node fdi p)))"

section \<open>Arithmetic\<close>

lemma f32_prec [simp]: "0 < prec f32" "0 < prec f64"
  by (simp_all add: f32_def f64_def)

lemma f32_of_int: "\<bar>n\<bar> < 2 ^ 24 \<Longrightarrow> fp_of_int f32 n = Fin (of_int n)"
  unfolding fp_of_int_def by (rule fp_round_of_int) (simp_all add: f32_def)

lemma fp_of_int_neg_iff:
  assumes "\<bar>n\<bar> < 2 ^ 63"
  shows "fp_less (fp_of_int f32 n) (Fin 0) \<longleftrightarrow> n < 0"
proof
  assume "fp_less (fp_of_int f32 n) (Fin 0)"
  show "n < 0"
  proof (rule ccontr)
    assume "\<not> n < 0"
    then have "fp_nonneg (fp_of_int f32 n)" by (intro fp_nonneg_of_int) simp
    with \<open>fp_less (fp_of_int f32 n) (Fin 0)\<close> show False by (cases "fp_of_int f32 n") auto
  qed
next
  assume "n < 0"
  then have "fp_le (fp_of_int f32 n) (fp_of_int f32 (- 1))" by (intro fp_le_of_int) auto
  moreover have "fp_of_int f32 (- 1) = Fin (- 1)" using f32_of_int [of "- 1"] by simp
  ultimately show "fp_less (fp_of_int f32 n) (Fin 0)" by (cases "fp_of_int f32 n") auto
qed

lemma cpu_portion_le_one:
  assumes "0 \<le> cpu" and "0 \<le> gpu"
  shows "fp_div f32 (fp_of_int f32 cpu) (fp_of_int f32 (cpu + gpu)) = NaN \<or>
    fp_le (fp_div f32 (fp_of_int f32 cpu) (fp_of_int f32 (cpu + gpu))) (Fin 1)"
proof -
  have le: "fp_le (fp_of_int f32 cpu) (fp_of_int f32 (cpu + gpu))"
    using assms by (intro fp_le_of_int) auto
  have nn: "fp_nonneg (fp_of_int f32 cpu)" "fp_nonneg (fp_of_int f32 (cpu + gpu))"
    using assms by (auto intro: fp_nonneg_of_int)
  have one: "fp_le (fp_round f32 q) (Fin 1)" if "q \<le> 1" for q
    using fp_le_round [of f32 q 1] that f32_of_int [of 1] by (simp add: fp_of_int_def)
  show ?thesis
    using le nn by (cases "fp_of_int f32 cpu"; cases "fp_of_int f32 (cpu + gpu)")
      (auto intro!: one simp: divide_le_eq_1)
qed

lemma sanitize_timings_nonneg:
  assumes "0 \<le> cpu" and "0 \<le> gpu" and "sanitize_timings tot cpu gpu = Some g"
  shows "0 \<le> g"
proof (cases "0 < tot - (cpu + gpu)")
  case False
  with assms show ?thesis by (simp add: sanitize_timings_def)
next
  case True
  let ?t = "fp_conv f32 (fp_sub f64 (Fin 1) (fp_div f32 (fp_of_int f32 cpu) (fp_of_int f32 (cpu + gpu))))"
  have "fp_nonneg ?t"
    using cpu_portion_le_one [OF assms(1,2)]
  proof (elim disjE)
    assume "fp_div f32 (fp_of_int f32 cpu) (fp_of_int f32 (cpu + gpu)) = NaN"
    then show ?thesis by (simp add: fp_sub_def)
  qed (intro fp_nonneg_conv fp_nonneg_sub)
  moreover have "fp_nonneg (fp_sub f32 (fp_of_int f32 (gpu + (tot - (cpu + gpu)))) (fp_of_int f32 gpu))"
    using True by (intro fp_nonneg_sub fp_le_of_int) auto
  ultimately have "fp_nonneg (fp_add f32 (fp_of_int f32 gpu)
      (fp_mul f32 (fp_sub f32 (fp_of_int f32 (gpu + (tot - (cpu + gpu)))) (fp_of_int f32 gpu)) ?t))"
    using assms(2) by (intro fp_nonneg_add fp_nonneg_mul fp_nonneg_of_int)
  with assms(3) True show ?thesis
    by (auto simp: sanitize_timings_def lerp_def Let_def intro: fp_nonneg_to_int)
qed

section \<open>Reading the frequency\<close>

lemma read_loop_chunks:
  assumes "fd_read fdi = (\<lambda>k n. Some (if k < length chunks then chunks ! k else []))"
    and "k \<le> length chunks" and "\<forall>c \<in> set (drop k chunks). c \<noteq> []"
    and "length (buffer @ concat (drop k chunks)) \<le> 15"
  shows "read_loop fdi k buffer = Some (buffer @ concat (drop k chunks))"
  using assms(2-4)
proof (induction "length chunks - k" arbitrary: k buffer)
  case 0
  then show ?case by (subst read_loop.simps) (simp add: assms(1))
next
  case (Suc m)
  then have k: "k < length chunks" by simp
  then have d: "drop k chunks = chunks ! k # drop (Suc k) chunks" by (simp add: Cons_nth_drop_Suc)
  with Suc.prems have c: "chunks ! k \<noteq> []" "length buffer + length (chunks ! k) \<le> 15" by auto
  have "read_loop fdi (Suc k) (buffer @ chunks ! k) = Some ((buffer @ chunks ! k) @ concat (drop (Suc k) chunks))"
    using Suc k d by (intro Suc.hyps(1)) auto
  moreover from c have "\<not> 15 \<le> length buffer" by (cases "chunks ! k") auto
  ultimately show ?case
    using k c d by (subst read_loop.simps) (simp add: assms(1))
qed

section \<open>Properties\<close>



text \<open>
  A late frame reported with neither CPU nor GPU time makes \<open>sanitize_timings\<close> divide
  zero by zero; the resulting not-a-number is converted to an integer, which is undefined.
\<close>
theorem calculate_capacity_zero_timings:
  assumes "0 < durationNanos w" and "target \<le> durationNanos w" and "\<bar>durationNanos w - target\<bar> < 2 ^ 63"
    and "cpuDurationNanos w = 0" and "gpuDurationNanos w = 0"
  shows "calculate_capacity w target freq = None"
proof -
  have zero: "fp_of_int f32 0 = Fin 0" using f32_of_int [of 0] by simp
  then have "sanitize_timings (durationNanos w) 0 0 = None"
    using assms(1) by (simp add: sanitize_timings_def lerp_def fp_sub_def Let_def)
  then show ?thesis
    using assms fp_of_int_neg_iff [OF assms(3)]
    by (simp add: calculate_capacity_def subtotal_timings_invalid_def Let_def)
qed

theorem calculate_capacity_zero_timings_witness:
  "calculate_capacity (work 0 2000) 1000 600000 = None"
  by (rule calculate_capacity_zero_timings) (simp_all add: work_def)

text \<open>
  C33: Reading back: when the frequency file holds a positive number of kilohertz printed in
  decimal and a newline, however the reads split it, \<open>gpu_frequency\<close> returns that number
  times 1000, provided the product fits an \<open>int\<close>.
\<close>
theorem gpu_frequency_roundtrip:
  assumes reads: "fd_read fdi = (\<lambda>k n. Some (if k < length chunks then chunks ! k else []))"
    and ne: "\<forall>c \<in> set chunks. c \<noteq> []" and content: "concat chunks = show_int f @ ''\<newline>''"
    and len: "length (concat chunks) \<le> 15" and seek: "0 \<le> fd_lseek fdi (frequency_fd node)"
    and f: "0 < f" "f * 1000 < 2 ^ 31"
  shows "gpu_frequency fdi node = Some (Some (f * 1000))"
proof -
  have "read_loop fdi 0 [] = Some (concat chunks)"
    using read_loop_chunks [OF reads, of 0 "[]"] ne len by simp
  moreover have "from_chars ((show_int f @ ''\<newline>'') @ pad) = Some f" for pad
    using from_chars_show [of f "''\<newline>'' @ pad"] f by (simp add: in_signed_def digit_val_def)
  moreover have "in_signed 32 (f * 1000)" using f by (simp add: in_signed_def)
  ultimately show ?thesis using seek f by (simp add: gpu_frequency_def content)
qed

theorem gpu_frequency_roundtrip_witness:
  "gpu_frequency \<lparr>fd_open = (\<lambda>_. 3), fd_write = (\<lambda>_ _. 0),
       fd_read = (\<lambda>k n. Some (if k < length [''7'', ''\<newline>''] then [''7'', ''\<newline>''] ! k else [])),
       fd_lseek = (\<lambda>_. 0)\<rparr>
     \<lparr>capacity_node_path = [], capacity_headroom_fd = 3, frequency_fd = 4\<rparr> = Some (Some 7000)"
proof -
  have "show_int 7 = ''7''" by code_simp
  then show ?thesis
    using gpu_frequency_roundtrip [of "\<lparr>fd_open = (\<lambda>_. 3), fd_write = (\<lambda>_ _. 0),
       fd_read = (\<lambda>k n. Some (if k < length [''7'', ''\<newline>''] then [''7'', ''\<newline>''] ! k else [])),
       fd_lseek = (\<lambda>_. 0)\<rparr>" "[''7'', ''\<newline>'']" 7
       "\<lparr>capacity_node_path = [], capacity_headroom_fd = 3, frequency_fd = 4\<rparr>"]
    by simp
qed

text \<open>
  Opening the node: on success both descriptors are valid, and on failure the one that
  was opened has been closed. But the optional the session manager gets is filled in both
  cases: with the null pointer when opening failed.
\<close>
theorem gpu_node_open:
  "(\<forall>node closed. init_gpu_capacity_node fdi dir = (Some node, closed) \<longrightarrow>
      0 \<le> capacity_headroom_fd node \<and> 0 \<le> frequency_fd node \<and> closed = [])
   \<and> (\<forall>closed. init_gpu_capacity_node fdi dir = (None, closed) \<longrightarrow>
      closed = filter (\<lambda>fd. 0 \<le> fd) [fd_open fdi (dir @ ''/capacity_headroom'')]
      \<and> createGpuCapacityNode fdi (Some dir) = Some None)"
  by (auto simp: init_gpu_capacity_node_def createGpuCapacityNode_def Let_def split: if_splits)

theorem gpu_node_open_witness:
  "createGpuCapacityNode \<lparr>fd_open = (\<lambda>_. - 1), fd_write = (\<lambda>_ _. 0), fd_read = (\<lambda>_ _. None),
     fd_lseek = (\<lambda>_. 0)\<rparr> (Some ''/sys/gpu'') = Some None"
  using gpu_node_open [of "\<lparr>fd_open = (\<lambda>_. - 1), fd_write = (\<lambda>_ _. 0), fd_read = (\<lambda>_ _. None),
     fd_lseek = (\<lambda>_. 0)\<rparr>" "''/sys/gpu''"]
  by (simp add: init_gpu_capacity_node_def)

text \<open>
  \<open>set_gpu_capacity\<close> reports the wrong way round: \<open>write\<close> returns the number of bytes
  written, so when the whole decimal string is written the result is false.
\<close>
theorem set_gpu_capacity_inverted:
  assumes "fd_write fdi (capacity_headroom_fd node) (show_int c) = int (length (show_int c))"
  shows "\<not> set_gpu_capacity fdi node c"
  using assms by (auto simp: set_gpu_capacity_def show_int_def split: if_splits)

theorem set_gpu_capacity_inverted_witness:
  "\<not> set_gpu_capacity \<lparr>fd_open = (\<lambda>_. 3), fd_write = (\<lambda>_ s. int (length s)), fd_read = (\<lambda>_ _. None),
     fd_lseek = (\<lambda>_. 0)\<rparr> \<lparr>capacity_node_path = [], capacity_headroom_fd = 3, frequency_fd = 4\<rparr> 1000"
  by (rule set_gpu_capacity_inverted) simp

end
