(* ===== verification/AdpfEnv.thy ===== *)
theory AdpfEnv
  imports SessionTaskMap BackgroundWorker GpuCapacity
begin

text \<open>
  What the session code has from outside the repository, as parameters of the model.

  \<open>AdpfConfig\<close> lists the fields the code reads of \<open>android::perfmgr::AdpfConfig\<close>;
  \<open>getPidIHighDivI\<close> and \<open>getPidILowDivI\<close> are methods of that class. \<open>env\<close> collects what
  the calls out of the program return: the clock, \<open>sched_setattr\<close>, \<open>SetTaskProfiles\<close>, the
  hint manager and the GPU files. Each answer may depend on everything that has happened,
  the list of effects, so a model run with one \<open>env\<close> covers every behaviour of the
  environment. Reading the clock is itself an effect, so two readings may differ.
\<close>

section \<open>Definitions\<close>

subsection \<open>Configuration\<close>

record AdpfConfig =
  mPidOn :: bool
  mPidPo :: fp
  mPidPu :: fp
  mPidI :: fp
  mPidDo :: fp
  mPidDu :: fp
  getPidIHighDivI :: int
  getPidILowDivI :: int
  mUclampMinOn :: bool
  mUclampMinInit :: int
  mUclampMinHigh :: int
  mUclampMinLow :: int
  mUclampMinLoadUp :: int
  mUclampMinLoadReset :: int
  mUclampMaxEfficientBase :: "int option"
  mUclampMaxEfficientOffset :: "int option"
  mSamplingWindowP :: int
  mSamplingWindowI :: int
  mSamplingWindowD :: int
  mReportingRateLimitNs :: int
  mTargetTimeFactor :: fp
  mStaleTimeFactor :: fp
  mGpuBoostOn :: "bool option"
  mGpuBoostCapacityMax :: "int option"
  mGpuCapacityLoadUpHeadroom :: int
  mHeuristicBoostOn :: "bool option"
  mHBoostOnMissedCycles :: "int option"
  mHBoostOffMaxAvgRatio :: "fp option"
  mHBoostOffMissedCycles :: "int option"
  mHBoostPidPuFactor :: "fp option"
  mHBoostUclampMin :: "int option"
  mJankCheckTimeFactor :: "fp option"
  mLowFrameRateThreshold :: "int option"
  mMaxRecordsNum :: "int option"

subsection \<open>Effects\<close>

text \<open>
  \<open>NullDeref\<close> marks the use of a null pointer; what the C++ does from there on is
  undefined, so nothing after it in a list of effects means anything.
\<close>

datatype effect =
    ClockRead
  | SchedSetattr tid int int
  | TaskProfile tid string
  | DoHint string
  | DoHintFor string int
  | EndHint string
  | SetAdpfProfile string
  | WriteGpuCapacity int
  | NullDeref

text \<open>The AIDL enumerations of the session interface; \<open>toString\<close> of a hint is generated code.\<close>

datatype SessionHint =
    SH_CPU_LOAD_UP
  | SH_CPU_LOAD_DOWN
  | SH_CPU_LOAD_RESET
  | SH_CPU_LOAD_RESUME
  | SH_POWER_EFFICIENCY
  | SH_GPU_LOAD_UP
  | SH_GPU_LOAD_DOWN
  | SH_GPU_LOAD_RESET
  | SH_Other int

datatype SessionMode = SM_POWER_EFFICIENCY | SM_Other int

record env =
  clock_now :: "effect list \<Rightarrow> time"
  setattr_errno :: "effect list \<Rightarrow> tid \<Rightarrow> int"
  hint_supported :: "effect list \<Rightarrow> string \<Rightarrow> bool"
  adpf_profile :: "effect list \<Rightarrow> AdpfConfig"
  adpf_present :: "effect list \<Rightarrow> bool"
  gpu_files :: FdInterface
  gpu_sysfs_config_path :: "string option"
  disable_boost_hint :: string
  app_start_uid :: int
  empty_optional :: int
  session_hint_str :: "SessionHint \<Rightarrow> string"

definition kESRCH :: int where
  "kESRCH = 3"

subsection \<open>Session descriptors\<close>

record AppHintDesc =
  desc_sessionId :: sid
  desc_tgid :: int
  desc_uid :: int
  targetNs :: int
  thread_ids :: "tid list"
  desc_tag :: int
  pidControlVariable :: int
  is_active :: bool
  update_count :: int
  integral_error :: int
  previous_error :: int

definition mkAppHintDesc ::
  "sid \<Rightarrow> int \<Rightarrow> int \<Rightarrow> tid list \<Rightarrow> int \<Rightarrow> int \<Rightarrow> AppHintDesc" where
  "mkAppHintDesc sess grp usr threadIds tag pTargetNs =
     \<lparr>desc_sessionId = sess, desc_tgid = grp, desc_uid = usr, targetNs = pTargetNs,
      thread_ids = threadIds, desc_tag = tag, pidControlVariable = 0, is_active = True,
      update_count = 0, integral_error = 0, previous_error = 0\<rparr>"

subsection \<open>A concrete configuration and environment\<close>

text \<open>For the examples: the steady clock always reads 1000 and no thread ever dies.\<close>

definition sample_config :: AdpfConfig where
  "sample_config =
     \<lparr>mPidOn = True, mPidPo = Fin 2, mPidPu = Fin 1, mPidI = Fin 0, mPidDo = Fin 500, mPidDu = Fin 0,
      getPidIHighDivI = 0, getPidILowDivI = 0, mUclampMinOn = True, mUclampMinInit = 100,
      mUclampMinHigh = 384, mUclampMinLow = 0, mUclampMinLoadUp = 450, mUclampMinLoadReset = 400,
      mUclampMaxEfficientBase = None, mUclampMaxEfficientOffset = None, mSamplingWindowP = 1,
      mSamplingWindowI = 0, mSamplingWindowD = 1, mReportingRateLimitNs = 1, mTargetTimeFactor = Fin 1,
      mStaleTimeFactor = Fin 10, mGpuBoostOn = Some False, mGpuBoostCapacityMax = None,
      mGpuCapacityLoadUpHeadroom = 0, mHeuristicBoostOn = None, mHBoostOnMissedCycles = None,
      mHBoostOffMaxAvgRatio = None, mHBoostOffMissedCycles = None, mHBoostPidPuFactor = None,
      mHBoostUclampMin = None, mJankCheckTimeFactor = None, mLowFrameRateThreshold = None,
      mMaxRecordsNum = None\<rparr>"

definition sample_env :: env where
  "sample_env =
     \<lparr>clock_now = \<lambda>_. 1000, setattr_errno = \<lambda>_ _. 0, hint_supported = \<lambda>_ _. True,
      adpf_profile = \<lambda>_. sample_config, adpf_present = \<lambda>_. True,
      gpu_files = \<lparr>fd_open = \<lambda>_. 5, fd_write = \<lambda>_ _. 0, fd_read = \<lambda>_ _. None, fd_lseek = \<lambda>_. 0\<rparr>,
      gpu_sysfs_config_path = Some ''/gpu'', disable_boost_hint = ''ADPF_DISABLE_TA_BOOST'',
      app_start_uid = 10000, empty_optional = 0,
      session_hint_str = \<lambda>_. ''HINT''\<rparr>"

definition sample_desc :: AppHintDesc where
  "sample_desc = mkAppHintDesc 1 100 10001 [7, 8] 0 500"

end
