(* ===== verification/PowerSessionManager.thy ===== *)
theory PowerSessionManager
  imports AdpfEnv
begin

text \<open>
  \<^verbatim>\<open>power-libperfmgr/aidl/PowerSessionManager.{h,cpp}\<close>: the one object all hint sessions
  report to. It owns the session map, the timeout events and the GPU node, and turns votes
  into scheduler attributes.

  The state is the record \<open>PSM\<close>; \<open>effects\<close> is the history of calls out of the program, in
  order. Each method is a function on that state and an \<open>env\<close>; the code between a lock and
  its release is one function, and a method that takes the lock several times is their
  composition. The tracing calls are left out; the dump is in \<open>SessionDump\<close>.

  \<open>psm_step\<close> runs any sequence of methods, and of timeout events when the worker thread
  delivers them; the invariants are proved over its reachable states.
\<close>

section \<open>Definitions\<close>

subsection \<open>State\<close>

record EventSessionTimeout =
  timeStamp :: time
  ev_sessionId :: sid
  ev_voteId :: int

record PSM =
  mDisplayRefreshRate :: int
  mSessionTaskMap :: SessionTaskMap
  mEventSessionTimeoutWorker ::
    "EventSessionTimeout TemplatePriorityQueueWorker \<times> unit PriorityQueueWorkerPool"
  mGpuCapacityNode :: "GpuCapacityNode option option"
  mSessionMap :: "(int, addr) umap"
  effects :: "effect list"

definition PSM_init :: "env \<Rightarrow> PSM" where
  "PSM_init E =
     \<lparr>mDisplayRefreshRate = 60, mSessionTaskMap = STM_init,
      mEventSessionTimeoutWorker = (Worker_init 0, Pool_addCallback 0 (Some ()) Pool_init),
      mGpuCapacityNode = createGpuCapacityNode (gpu_files E) (gpu_sysfs_config_path E),
      mSessionMap = [], effects = []\<rparr>"

subsection \<open>Calls out of the program\<close>

definition emit :: "effect \<Rightarrow> PSM \<Rightarrow> PSM" where
  "emit e s = s\<lparr>effects := effects s @ [e]\<rparr>"

definition steady_now :: "env \<Rightarrow> PSM \<Rightarrow> time \<times> PSM" where
  "steady_now E s = (clock_now E (effects s), emit ClockRead s)"

definition GetAdpfProfile :: "env \<Rightarrow> PSM \<Rightarrow> AdpfConfig" where
  "GetAdpfProfile E s = adpf_profile E (effects s)"

definition set_uclamp :: "env \<Rightarrow> tid \<Rightarrow> UclampRange \<Rightarrow> PSM \<Rightarrow> int \<times> PSM" where
  "set_uclamp E t rng s =
     (let lo = min (max kUclampMin (uclampMin rng)) kUclampMax;
          hi = min (max (uclampMax rng) lo) kUclampMax
      in (setattr_errno E (effects s) t, emit (SchedSetattr t lo hi) s))"

subsection \<open>Applying votes\<close>

definition on_map :: "(SessionTaskMap \<Rightarrow> SessionTaskMap) \<Rightarrow> PSM \<Rightarrow> PSM" where
  "on_map f s = s\<lparr>mSessionTaskMap := f (mSessionTaskMap s)\<rparr>"

definition efficient_offset :: "env \<Rightarrow> AdpfConfig \<Rightarrow> int" where
  "efficient_offset E cfg =
     (case mUclampMaxEfficientOffset cfg of None \<Rightarrow> empty_optional E | Some k \<Rightarrow> k)"

text \<open>
  The loop over the session's threads, by position: a dead thread is erased from the list
  and the position stays, otherwise it advances.
\<close>

function uclamp_loop :: "env \<Rightarrow> AdpfConfig \<Rightarrow> sid \<Rightarrow> time \<Rightarrow> nat \<Rightarrow> PSM \<Rightarrow> PSM" where
  "uclamp_loop E cfg sess t i s =
     (let threadList = STM_getTaskIds sess (mSessionTaskMap s) in
      if i < length threadList then
        let tidi = threadList ! i;
            rng = STM_getTaskVoteRange tidi t UclampRange_default (mUclampMaxEfficientBase cfg)
                    (efficient_offset E cfg) (mSessionTaskMap s);
            (stat, s1) = set_uclamp E tidi rng s
        in if stat = kESRCH
           then uclamp_loop E cfg sess t i
                  (on_map (\<lambda>m. STM_erase_linked sess i (snd (STM_removeDeadTaskSessionMap sess tidi m))) s1)
           else uclamp_loop E cfg sess t (Suc i) s1
      else s)"
  by pat_completeness auto

termination
proof (relation "measure (\<lambda>(E, cfg, sess, t, i, s). length (STM_getTaskIds sess (mSessionTaskMap s)) - i)",
    goal_cases)
  case (2 E cfg sess t i s threadList tidi rng p stat s1)
  have m: "mSessionTaskMap s1 = mSessionTaskMap s"
    using 2 by (auto simp: set_uclamp_def emit_def Let_def)
  have "length (STM_getTaskIds sess (STM_erase_linked sess i (snd (STM_removeDeadTaskSessionMap sess tidi m')))) - i
      < length (STM_getTaskIds sess m') - i" if "i < length (STM_getTaskIds sess m')" for m'
  proof (cases "umap_find (mSessions m') sess")
    case None
    with that show ?thesis by (simp add: STM_getTaskIds_def)
  next
    case (Some ve)
    then have "umap_find (mSessions (snd (STM_removeDeadTaskSessionMap sess tidi m'))) sess = Some ve"
      by (simp add: STM_removeDeadTaskSessionMap_def case_prod_unfold Let_def)
    with Some that show ?thesis by (auto simp: STM_getTaskIds_def STM_erase_linked_def umap_simps)
  qed
  from this [of "mSessionTaskMap s"] 2 show ?case by (simp add: m on_map_def)
next
  case (3 E cfg sess t i s threadList tidi rng p stat s1)
  then have "mSessionTaskMap s1 = mSessionTaskMap s" by (auto simp: set_uclamp_def emit_def Let_def)
  with 3 show ?case by simp
qed simp

declare uclamp_loop.simps [simp del]

definition applyUclampLocked :: "env \<Rightarrow> sid \<Rightarrow> time \<Rightarrow> PSM \<Rightarrow> PSM" where
  "applyUclampLocked E sess timePoint s =
     (let cfg = GetAdpfProfile E s in
      case STM_findSession sess (mSessionTaskMap s) of
        None \<Rightarrow> s
      | Some _ \<Rightarrow>
          on_map (STM_write_entry sess (\<lambda>e. e\<lparr>lastUpdatedTime := timePoint\<rparr>))
            (if \<not> mUclampMinOn cfg then s else uclamp_loop E cfg sess timePoint 0 s))"

text \<open>
  \<open>gpuVotingOn\<close> is an optional Boolean, so the condition tests that it has a value. Through
  a null node the call is undefined.
\<close>

definition applyGpuVotesLocked :: "env \<Rightarrow> sid \<Rightarrow> time \<Rightarrow> PSM \<Rightarrow> PSM" where
  "applyGpuVotesLocked E sess timePoint s =
     (case STM_findSession sess (mSessionTaskMap s) of
        None \<Rightarrow> s
      | Some _ \<Rightarrow>
          let gpuVotingOn = mGpuBoostOn (GetAdpfProfile E s);
              capacity = STM_getSessionsGpuCapacity timePoint (mSessionTaskMap s);
              s1 = (case mGpuCapacityNode s of
                      None \<Rightarrow> s
                    | Some node \<Rightarrow>
                        if gpuVotingOn = None then s
                        else case node of
                          None \<Rightarrow> emit NullDeref s
                        | Some _ \<Rightarrow> emit (WriteGpuCapacity capacity) s)
          in on_map (STM_write_entry sess (\<lambda>e. e\<lparr>lastUpdatedTime := timePoint\<rparr>)) s1)"

definition applyCpuAndGpuVotes :: "env \<Rightarrow> sid \<Rightarrow> time \<Rightarrow> PSM \<Rightarrow> PSM" where
  "applyCpuAndGpuVotes E sess timePoint s =
     applyGpuVotesLocked E sess timePoint (applyUclampLocked E sess timePoint s)"

subsection \<open>Boost of the top application\<close>

definition enableSystemTopAppBoost :: "env \<Rightarrow> PSM \<Rightarrow> PSM" where
  "enableSystemTopAppBoost E s =
     (if hint_supported E (effects s) (disable_boost_hint E)
      then emit (EndHint (disable_boost_hint E)) s else s)"

definition disableSystemTopAppBoost :: "env \<Rightarrow> PSM \<Rightarrow> PSM" where
  "disableSystemTopAppBoost E s =
     (if hint_supported E (effects s) (disable_boost_hint E)
      then emit (DoHint (disable_boost_hint E)) s else s)"

definition PSM_isAnyAppSessionActive :: "env \<Rightarrow> PSM \<Rightarrow> bool option \<times> PSM" where
  "PSM_isAnyAppSessionActive E s =
     (let (now, s1) = steady_now E s
      in (Some (STM_isAnyAppSessionActive now (mSessionTaskMap s1)), s1))"

definition updateUniversalBoostMode :: "env \<Rightarrow> PSM \<Rightarrow> PSM" where
  "updateUniversalBoostMode E s =
     (let (active, s1) = PSM_isAnyAppSessionActive E s in
      case active of
        None \<Rightarrow> s1
      | Some a \<Rightarrow> if a then disableSystemTopAppBoost E s1 else enableSystemTopAppBoost E s1)"

text \<open>What several methods end with: apply the votes at the current time, then set the mode.\<close>

definition reapply :: "env \<Rightarrow> sid \<Rightarrow> PSM \<Rightarrow> PSM" where
  "reapply E sess s =
     (let (now, s1) = steady_now E s
      in updateUniversalBoostMode E (applyCpuAndGpuVotes E sess now s1))"

definition forceSessionActive :: "env \<Rightarrow> sid \<Rightarrow> bool \<Rightarrow> PSM \<Rightarrow> PSM" where
  "forceSessionActive E sess active s =
     (case STM_findSession sess (mSessionTaskMap s) of
        None \<Rightarrow> s
      | Some _ \<Rightarrow> reapply E sess (on_map (STM_write_entry sess (\<lambda>e. e\<lparr>isActive := active\<rparr>)) s))"

subsection \<open>Sessions and threads\<close>

definition set_profiles :: "string \<Rightarrow> tid list \<Rightarrow> PSM \<Rightarrow> PSM" where
  "set_profiles profile ts s = fold (\<lambda>t. emit (TaskProfile t profile)) ts s"

definition setThreadsFromPowerSession :: "env \<Rightarrow> sid \<Rightarrow> tid list \<Rightarrow> PSM \<Rightarrow> PSM" where
  "setThreadsFromPowerSession E sess threadIds s0 =
     (let s = forceSessionActive E sess False s0;
          (_, addedThreads, removedThreads, m) = STM_replace sess threadIds (mSessionTaskMap s);
          s1 = set_profiles ''ResetUclampGrp'' addedThreads (s\<lparr>mSessionTaskMap := m\<rparr>);
          s2 = set_profiles ''NoResetUclampGrp'' removedThreads s1
      in forceSessionActive E sess True s2)"

text \<open>\<open>std::make_shared<Votes>\<close>: a fresh object in the store.\<close>

definition new_votes :: "Votes \<Rightarrow> SessionTaskMap \<Rightarrow> addr \<times> SessionTaskMap" where
  "new_votes vs m =
     (nextAddr m, m\<lparr>votesStore := (votesStore m)(nextAddr m := vs), nextAddr := Suc (nextAddr m)\<rparr>)"

definition addPowerSession ::
  "env \<Rightarrow> string \<Rightarrow> AppHintDesc option \<Rightarrow> tid list \<Rightarrow> PSM \<Rightarrow> PSM" where
  "addPowerSession E idStr sessionDescriptor threadIds s =
     (case sessionDescriptor of
        None \<Rightarrow> s
      | Some d \<Rightarrow>
          let (timeNow, s1) = steady_now E s;
              vs = Votes_addCpu (vote_id CPU_VOTE_DEFAULT)
                     (mkCpuVote False timeNow (targetNs d) kUclampMin kUclampMax) Votes_init;
              (q, m1) = new_votes vs (mSessionTaskMap s1);
              sve = \<lparr>sessionId = 0, tgid = desc_tgid d, uid = desc_uid d, idString = idStr,
                     isActive = is_active d, isAppSession = desc_uid d \<ge> app_start_uid E,
                     lastUpdatedTime = timeNow, votes = q, isPowerEfficient = False\<rparr>;
              (_, m2) = STM_add (desc_sessionId d) sve [] m1
          in setThreadsFromPowerSession E (desc_sessionId d) threadIds (s1\<lparr>mSessionTaskMap := m2\<rparr>))"

definition registerSession :: "addr \<Rightarrow> sid \<Rightarrow> PSM \<Rightarrow> PSM" where
  "registerSession session sess s =
     s\<lparr>mSessionMap := umap_set (to_i32 sess) session (mSessionMap s)\<rparr>"

definition unregisterSession :: "sid \<Rightarrow> PSM \<Rightarrow> PSM" where
  "unregisterSession sess s = s\<lparr>mSessionMap := umap_erase (to_i32 sess) (mSessionMap s)\<rparr>"

text \<open>\<open>alive\<close> says whether the object a weak pointer refers to still exists.\<close>

definition getSession :: "(addr \<Rightarrow> bool) \<Rightarrow> sid \<Rightarrow> PSM \<Rightarrow> addr option \<times> PSM" where
  "getSession alive sess s =
     (case umap_find (mSessionMap s) (to_i32 sess) of
        None \<Rightarrow> (None, s)
      | Some p \<Rightarrow>
          if alive p then (Some p, s)
          else (None, s\<lparr>mSessionMap := umap_erase (to_i32 sess) (mSessionMap s)\<rparr>))"

definition PSM_clear :: "PSM \<Rightarrow> PSM" where
  "PSM_clear s = s\<lparr>mSessionMap := []\<rparr>"

definition removePowerSession :: "env \<Rightarrow> sid \<Rightarrow> PSM \<Rightarrow> PSM" where
  "removePowerSession E sess s0 =
     (let s = forceSessionActive E sess False s0;
          (_, addedThreads, removedThreads, m) = STM_replace sess [] (mSessionTaskMap s);
          m' = snd (STM_remove sess m);
          s1 = set_profiles ''NoResetUclampGrp'' removedThreads (s\<lparr>mSessionTaskMap := m'\<rparr>)
      in unregisterSession sess s1)"

definition PSM_pause :: "env \<Rightarrow> sid \<Rightarrow> PSM \<Rightarrow> PSM" where
  "PSM_pause E sess s =
     (case STM_findSession sess (mSessionTaskMap s) of
        None \<Rightarrow> s
      | Some p \<Rightarrow>
          if \<not> isActive (entryStore (mSessionTaskMap s) p) then s
          else reapply E sess (on_map (STM_write_entry sess (\<lambda>e. e\<lparr>isActive := False\<rparr>)) s))"

definition PSM_resume :: "env \<Rightarrow> sid \<Rightarrow> PSM \<Rightarrow> PSM" where
  "PSM_resume E sess s =
     (case STM_findSession sess (mSessionTaskMap s) of
        None \<Rightarrow> s
      | Some p \<Rightarrow>
          if isActive (entryStore (mSessionTaskMap s) p) then s
          else reapply E sess (on_map (STM_write_entry sess (\<lambda>e. e\<lparr>isActive := True\<rparr>)) s))"

definition setPreferPowerEfficiency :: "env \<Rightarrow> sid \<Rightarrow> bool \<Rightarrow> PSM \<Rightarrow> PSM" where
  "setPreferPowerEfficiency E sess enabled s =
     (case STM_findSession sess (mSessionTaskMap s) of
        None \<Rightarrow> s
      | Some p \<Rightarrow>
          if enabled \<noteq> isPowerEfficient (entryStore (mSessionTaskMap s) p) then
            let s1 = on_map (STM_write_entry sess (\<lambda>e. e\<lparr>isPowerEfficient := enabled\<rparr>)) s;
                (now, s2) = steady_now E s1
            in applyUclampLocked E sess now s2
          else s)"

subsection \<open>Votes and their timeouts\<close>

definition PSM_updateTargetWorkDuration :: "sid \<Rightarrow> AdpfVoteType \<Rightarrow> time \<Rightarrow> PSM \<Rightarrow> PSM" where
  "PSM_updateTargetWorkDuration sess voteId durationNs s =
     on_map (STM_write_votes sess (Votes_updateDuration (vote_id voteId) durationNs)) s"

definition shouldScheduleTimeout :: "Votes \<Rightarrow> int \<Rightarrow> time \<Rightarrow> bool" where
  "shouldScheduleTimeout vs i dl \<longleftrightarrow> \<not> voteIsActive vs i \<or> dl < voteTimeout vs i"

definition schedule_timeout :: "EventSessionTimeout \<Rightarrow> time \<Rightarrow> PSM \<Rightarrow> PSM" where
  "schedule_timeout ev dl s =
     s\<lparr>mEventSessionTimeoutWorker := Worker_schedule ev dl (mEventSessionTimeoutWorker s)\<rparr>"

definition voteSet_cpu ::
  "env \<Rightarrow> sid \<Rightarrow> AdpfVoteType \<Rightarrow> int \<Rightarrow> int \<Rightarrow> time \<Rightarrow> time \<Rightarrow> PSM \<Rightarrow> PSM" where
  "voteSet_cpu E sess voteId lo hi startTime durationNs s =
     (case STM_findSession sess (mSessionTaskMap s) of
        None \<Rightarrow> s
      | Some p \<Rightarrow>
          let i = vote_id voteId;
              timeoutDeadline = startTime + durationNs;
              m = mSessionTaskMap s;
              scheduleTimeout = shouldScheduleTimeout (votesStore m (votes (entryStore m p))) i timeoutDeadline;
              s1 = on_map (STM_addVote sess i lo hi startTime durationNs) s;
              s2 = on_map (STM_write_entry sess (\<lambda>e. e\<lparr>lastUpdatedTime := startTime\<rparr>)) s1;
              s3 = applyUclampLocked E sess startTime s2
          in if scheduleTimeout
             then schedule_timeout \<lparr>timeStamp = startTime, ev_sessionId = sess, ev_voteId = i\<rparr> timeoutDeadline s3
             else s3)"

definition voteSet_gpu ::
  "env \<Rightarrow> sid \<Rightarrow> AdpfVoteType \<Rightarrow> int \<Rightarrow> time \<Rightarrow> time \<Rightarrow> PSM \<Rightarrow> PSM" where
  "voteSet_gpu E sess voteId capacity startTime durationNs s =
     (case STM_findSession sess (mSessionTaskMap s) of
        None \<Rightarrow> s
      | Some p \<Rightarrow>
          let i = vote_id voteId;
              timeoutDeadline = startTime + durationNs;
              m = mSessionTaskMap s;
              scheduleTimeout = shouldScheduleTimeout (votesStore m (votes (entryStore m p))) i timeoutDeadline;
              s1 = on_map (STM_addGpuVote sess i capacity startTime durationNs) s;
              s2 = on_map (STM_write_entry sess (\<lambda>e. e\<lparr>lastUpdatedTime := startTime\<rparr>)) s1;
              s3 = applyGpuVotesLocked E sess startTime s2
          in if scheduleTimeout
             then schedule_timeout \<lparr>timeStamp = startTime, ev_sessionId = sess, ev_voteId = i\<rparr> timeoutDeadline s3
             else s3)"

definition boost_votes :: "AdpfVoteType list" where
  "boost_votes = [CPU_LOAD_UP, CPU_LOAD_RESET, CPU_LOAD_RESUME, VOTE_POWER_EFFICIENCY,
     GPU_LOAD_UP, GPU_LOAD_RESET]"

definition disableBoosts :: "sid \<Rightarrow> PSM \<Rightarrow> PSM" where
  "disableBoosts sess s =
     on_map (STM_write_votes sess
       (fold (\<lambda>vid vs. snd (setUseVote (vote_id vid) False vs)) boost_votes)) s"

text \<open>The event's clock reading comes before the lock.\<close>

definition handleEvent :: "env \<Rightarrow> EventSessionTimeout \<Rightarrow> PSM \<Rightarrow> PSM" where
  "handleEvent E ev s0 =
     (let (tNow, s) = steady_now E s0;
          sess = ev_sessionId ev; i = ev_voteId ev; m = mSessionTaskMap s
      in case STM_findSession sess m of
           None \<Rightarrow> s
         | Some p \<Rightarrow>
             let vs = votesStore m (votes (entryStore m p)) in
             if voteIsActive vs i then
               if voteTimeout vs i \<le> tNow then
                 updateUniversalBoostMode E (applyCpuAndGpuVotes E sess tNow
                   (on_map (STM_write_votes sess (\<lambda>v. snd (setUseVote i False v))) s))
               else schedule_timeout ev (voteTimeout vs i) s
             else s)"

text \<open>The worker thread takes an event from the queue and hands it to \<open>handleEvent\<close>.\<close>

definition PSM_fire :: "env \<Rightarrow> PSM \<Rightarrow> PSM" where
  "PSM_fire E s =
     (case Worker_fire (mEventSessionTimeoutWorker s) of
        (None, w) \<Rightarrow> s\<lparr>mEventSessionTimeoutWorker := w\<rparr>
      | (Some ev, w) \<Rightarrow> handleEvent E ev (s\<lparr>mEventSessionTimeoutWorker := w\<rparr>))"

subsection \<open>Modes\<close>

definition updateHintMode :: "env \<Rightarrow> string \<Rightarrow> bool \<Rightarrow> PSM \<Rightarrow> PSM" where
  "updateHintMode E mode enabled s =
     (let s1 = (if enabled \<and> take 8 mode = ''REFRESH_'' then
                  if mode = ''REFRESH_120FPS'' then s\<lparr>mDisplayRefreshRate := 120\<rparr>
                  else if mode = ''REFRESH_90FPS'' then s\<lparr>mDisplayRefreshRate := 90\<rparr>
                  else if mode = ''REFRESH_60FPS'' then s\<lparr>mDisplayRefreshRate := 60\<rparr>
                  else s
                else s)
      in if adpf_present E (effects s1) then emit (SetAdpfProfile mode) s1 else s1)"

definition getDisplayRefreshRate :: "PSM \<Rightarrow> int" where
  "getDisplayRefreshRate s = mDisplayRefreshRate s"

text \<open>The GPU frequency; the outer \<open>None\<close> is undefined behaviour, here also a null node.\<close>

definition gpuFrequency :: "env \<Rightarrow> PSM \<Rightarrow> int option option" where
  "gpuFrequency E s =
     (case mGpuCapacityNode s of
        None \<Rightarrow> Some None
      | Some None \<Rightarrow> None
      | Some (Some node) \<Rightarrow> gpu_frequency (gpu_files E) node)"

subsection \<open>Specification\<close>

text \<open>
  What the scheduler may be told: clamps within their limits and in order. A null pointer
  is used only if the node is one.
\<close>

fun effect_ok :: "GpuCapacityNode option option \<Rightarrow> effect \<Rightarrow> bool" where
  "effect_ok node (SchedSetattr t lo hi) \<longleftrightarrow> kUclampMin \<le> lo \<and> lo \<le> hi \<and> hi \<le> kUclampMax"
| "effect_ok node NullDeref \<longleftrightarrow> node = Some None"
| "effect_ok node _ \<longleftrightarrow> True"

text \<open>
  What applying votes leaves alone: the votes of every session, the events, the node. It
  only appends effects.
\<close>

definition applies :: "PSM \<Rightarrow> PSM \<Rightarrow> bool" where
  "applies s s' \<longleftrightarrow>
     (STM_wf (mSessionTaskMap s) \<longrightarrow>
        STM_wf (mSessionTaskMap s') \<and> STM_votes (mSessionTaskMap s') = STM_votes (mSessionTaskMap s))
     \<and> mEventSessionTimeoutWorker s' = mEventSessionTimeoutWorker s
     \<and> mGpuCapacityNode s' = mGpuCapacityNode s
     \<and> (\<exists>es. effects s' = effects s @ es \<and> list_all (effect_ok (mGpuCapacityNode s)) es)"

definition pending_timeouts :: "PSM \<Rightarrow> (time \<times> EventSessionTimeout) multiset" where
  "pending_timeouts s = (case mEventSessionTimeoutWorker s of (w, pl) \<Rightarrow> worker_pending w pl)"

text \<open>
  The timeout protocol: every active vote has an event waiting for it, and one that is not
  too late. \<open>updateTargetWorkDuration\<close> moves the deadline of the default vote without
  touching the queue, so for that vote only the event's existence is claimed.
\<close>

definition covered :: "PSM \<Rightarrow> sid \<Rightarrow> int \<Rightarrow> bool" where
  "covered s sess i \<longleftrightarrow>
     (\<forall>vs. STM_votes (mSessionTaskMap s) sess = Some vs \<and> voteIsActive vs i \<longrightarrow>
        (\<exists>(d, ev) \<in># pending_timeouts s. ev_sessionId ev = sess \<and> ev_voteId ev = i \<and>
           (i = vote_id CPU_VOTE_DEFAULT \<or> d \<le> voteTimeout vs i)))"

definition psm_inv :: "PSM \<Rightarrow> bool" where
  "psm_inv s \<longleftrightarrow>
     STM_wf (mSessionTaskMap s) \<and> worker_inv (mEventSessionTimeoutWorker s)
     \<and> (\<forall>sess i. covered s sess i)
     \<and> list_all (effect_ok (mGpuCapacityNode s)) (effects s)"

text \<open>The votes of a session that has just been added.\<close>

definition default_votes :: "time \<Rightarrow> AppHintDesc \<Rightarrow> Votes" where
  "default_votes t d =
     Votes_addCpu (vote_id CPU_VOTE_DEFAULT) (mkCpuVote False t (targetNs d) kUclampMin kUclampMax) Votes_init"

text \<open>From now on every clock reading is past the deadline of every active vote.\<close>

definition all_due :: "env \<Rightarrow> PSM \<Rightarrow> bool" where
  "all_due E s \<longleftrightarrow>
     (\<forall>sess vs i h. STM_votes (mSessionTaskMap s) sess = Some vs \<longrightarrow> voteIsActive vs i \<longrightarrow>
        voteTimeout vs i \<le> clock_now E h)"

text \<open>One session with two threads, for the examples.\<close>

definition sample_psm :: PSM where
  "sample_psm = addPowerSession sample_env ''100-10001-1'' (Some sample_desc) [7, 8] (PSM_init sample_env)"

text \<open>
  Any sequence of calls; the target is only ever updated for the default vote. In between,
  the sessions read the clock and send hints on their own account, as the service does.
\<close>

inductive psm_step :: "env \<Rightarrow> PSM \<Rightarrow> PSM \<Rightarrow> bool" for E :: env where
  "psm_step E s (addPowerSession E idStr d ts s)"
| "psm_step E s (removePowerSession E sess s)"
| "psm_step E s (setThreadsFromPowerSession E sess ts s)"
| "psm_step E s (PSM_pause E sess s)"
| "psm_step E s (PSM_resume E sess s)"
| "psm_step E s (setPreferPowerEfficiency E sess b s)"
| "psm_step E s (updateUniversalBoostMode E s)"
| "psm_step E s (PSM_updateTargetWorkDuration sess CPU_VOTE_DEFAULT dur s)"
| "psm_step E s (voteSet_cpu E sess v lo hi t dur s)"
| "psm_step E s (voteSet_gpu E sess v cap t dur s)"
| "psm_step E s (disableBoosts sess s)"
| "psm_step E s (PSM_fire E s)"
| "psm_step E s (updateHintMode E mode b s)"
| "psm_step E s (registerSession p sess s)"
| "psm_step E s (unregisterSession sess s)"
| "psm_step E s (snd (getSession alive sess s))"
| "psm_step E s (PSM_clear s)"
| "psm_step E s (snd (steady_now E s))"
| "psm_step E s (emit (DoHint hint) s)"
| "psm_step E s (emit (DoHintFor hint ms) s)"
| "psm_step E s (emit (EndHint hint) s)"

abbreviation psm_reachable :: "env \<Rightarrow> PSM \<Rightarrow> bool" where
  "psm_reachable E \<equiv> reach (\<lambda>s. s = PSM_init E) (psm_step E)"

section \<open>The session map under the manager\<close>

lemma STM_votes_write_entry:
  assumes "STM_wf m" and "\<And>e. votes (f e) = votes e"
  shows "STM_votes (STM_write_entry s f m) = STM_votes m"
  by (auto simp: STM_votes_def STM_write_entry_abs [OF assms(1)] fun_eq_iff assms(2) option.map_comp
      comp_def case_prod_unfold)

lemma drop_dead_votes:
  assumes "STM_wf m" and "i < length (STM_getTaskIds s m)"
  defines "m' \<equiv> STM_erase_linked s i (snd (STM_removeDeadTaskSessionMap s (STM_getTaskIds s m ! i) m))"
  shows "STM_wf m'" "STM_votes m' = STM_votes m"
proof -
  obtain ve where ve: "umap_find (mSessions m) s = Some ve" "STM_getTaskIds s m = linkedTasks ve"
    using assms(2) by (auto simp: STM_getTaskIds_def split: option.splits)
  then have abs: "STM_abs m s = Some (entryStore m (val ve), STM_getTaskIds s m)" by (simp add: STM_abs_def)
  show "STM_wf m'" unfolding m'_def by (rule drop_dead_wf [OF assms(1) abs assms(2)])
  have "votesStore m' = votesStore m"
    using drop_dead [OF assms(1) ve(1), of i] assms(2) ve(2) by (simp add: m'_def)
  then show "STM_votes m' = STM_votes m"
    unfolding STM_votes_def m'_def drop_dead_abs [OF assms(1) abs assms(2)]
    using abs by (auto simp: fun_eq_iff)
qed

lemma STM_votes_replace:
  assumes "STM_wf m"
  shows "STM_votes (STM_replaced s ts m) = STM_votes m"
  by (auto simp: STM_votes_def STM_abs_replace [OF assms] STM_replace_frame fun_eq_iff option.map_comp
      comp_def case_prod_unfold)

lemma STM_votes_remove: "STM_votes (snd (STM_remove s m)) = (STM_votes m)(s := None)"
  by (auto simp: STM_votes_def fun_eq_iff)

lemma new_votes_props:
  assumes wf: "STM_wf m" and vs: "Votes_wf vs" and r: "new_votes vs m = (q, m')"
  shows "STM_wf m'" "STM_abs m' = STM_abs m" "STM_votes m' = STM_votes m" "votesStore m' q = vs"
    "votes sv = q \<Longrightarrow> fresh_entry m' sv"
proof -
  have m': "mSessions m' = mSessions m" "mTasks m' = mTasks m" "entryStore m' = entryStore m"
    "q = nextAddr m" "votesStore m' = (votesStore m)(q := vs)" "nextAddr m' = Suc (nextAddr m)"
    using r by (auto simp: new_votes_def)
  show abs: "STM_abs m' = STM_abs m" by (simp add: STM_abs_def m' fun_eq_iff)
  have below: "votes e < nextAddr m" if "STM_abs m s = Some (e, ts)" for s e ts
  proof -
    from that obtain ve where "umap_find (mSessions m) s = Some ve" "e = entryStore m (val ve)"
      by (auto simp: STM_abs_def)
    with STM_wfD [OF wf] show ?thesis by (auto simp: session_ok_def Let_def)
  qed
  show "STM_wf m'"
  proof (rule STM_wf_cong [OF wf])
    fix s ve assume "umap_find (mSessions m) s = Some ve"
    from STM_wfD [OF wf this] show "session_ok m' s ve" by (simp add: session_ok_def Let_def m')
  qed (simp_all add: m' abs)
  show "STM_votes m' = STM_votes m"
    using below by (fastforce simp: STM_votes_def abs m' fun_eq_iff map_option_case split: option.splits)
  show "votesStore m' q = vs" by (simp add: m')
  show "fresh_entry m' sv" if "votes sv = q"
    using that vs by (auto simp: fresh_entry_def abs m' dest: below)
qed

section \<open>What applying votes leaves alone\<close>

lemma applies_refl [simp]: "applies s s"
  by (simp add: applies_def)

lemma applies_trans [trans]:
  assumes "applies s s'" and "applies s' s''"
  shows "applies s s''"
proof -
  obtain es es' where es: "effects s' = effects s @ es" "list_all (effect_ok (mGpuCapacityNode s)) es"
      "effects s'' = effects s' @ es'" "list_all (effect_ok (mGpuCapacityNode s')) es'"
      "mGpuCapacityNode s' = mGpuCapacityNode s"
    using assms unfolding applies_def by blast
  then have "\<exists>es. effects s'' = effects s @ es \<and> list_all (effect_ok (mGpuCapacityNode s)) es"
    by (intro exI [of _ "es @ es'"]) simp
  with assms show ?thesis unfolding applies_def by auto
qed

lemma applies_emit: "effect_ok (mGpuCapacityNode s) e \<Longrightarrow> applies s (emit e s)"
  by (simp add: applies_def emit_def)

lemma applies_now: "applies s (snd (steady_now E s))"
  by (simp add: steady_now_def applies_emit)

lemma applies_write_entry:
  assumes "\<And>e. sessionId (f e) = sessionId e" "\<And>e. votes (f e) = votes e"
  shows "applies s (on_map (STM_write_entry sess f) s)"
  using assms by (simp add: applies_def on_map_def STM_write_entry_wf STM_votes_write_entry)

lemma applies_set_uclamp: "applies s (snd (set_uclamp E t rng s))"
  unfolding set_uclamp_def Let_def snd_conv
  by (rule applies_emit) (auto simp: uclamp_consts)

lemma set_uclamp_map [simp]: "mSessionTaskMap (snd (set_uclamp E t rng s)) = mSessionTaskMap s"
  by (simp add: set_uclamp_def emit_def Let_def)

lemma applies_uclamp_loop: "applies s (uclamp_loop E cfg sess t i s)"
proof (induction E cfg sess t i s rule: uclamp_loop.induct)
  case (1 E cfg sess t i s)
  let ?ts = "STM_getTaskIds sess (mSessionTaskMap s)"
  let ?rng = "STM_getTaskVoteRange (?ts ! i) t UclampRange_default (mUclampMaxEfficientBase cfg)
      (efficient_offset E cfg) (mSessionTaskMap s)"
  obtain stat s1 where s1: "set_uclamp E (?ts ! i) ?rng s = (stat, s1)" by fastforce
  then have a1: "applies s s1" and m1: "mSessionTaskMap s1 = mSessionTaskMap s"
    using applies_set_uclamp [of s E "?ts ! i" ?rng] set_uclamp_map [of E "?ts ! i" ?rng s] by simp_all
  let ?s2 = "on_map (\<lambda>m. STM_erase_linked sess i (snd (STM_removeDeadTaskSessionMap sess (?ts ! i) m))) s1"
  show ?case
  proof (cases "i < length ?ts")
    case True
    have a2: "applies s1 ?s2"
      using drop_dead_votes [of "mSessionTaskMap s" i sess] True by (simp add: applies_def on_map_def m1)
    have "applies s (if stat = kESRCH then uclamp_loop E cfg sess t i ?s2 else uclamp_loop E cfg sess t (Suc i) s1)"
      using 1(1) [OF refl True refl refl s1 [symmetric] refl] 1(2) [OF refl True refl refl s1 [symmetric] refl]
        a1 a2 by (auto intro: applies_trans)
    with True s1 show ?thesis by (subst uclamp_loop.simps) (simp add: Let_def)
  qed (subst uclamp_loop.simps, simp)
qed

lemma applies_applyUclampLocked: "applies s (applyUclampLocked E sess t s)"
  unfolding applyUclampLocked_def Let_def
  by (auto split: option.splits
      intro: applies_trans [OF applies_uclamp_loop applies_write_entry] applies_write_entry)

lemma applies_applyGpuVotesLocked: "applies s (applyGpuVotesLocked E sess t s)"
proof -
  have "applies s (case mGpuCapacityNode s of None \<Rightarrow> s | Some node \<Rightarrow>
      if mGpuBoostOn (GetAdpfProfile E s) = None then s
      else case node of None \<Rightarrow> emit NullDeref s
        | Some _ \<Rightarrow> emit (WriteGpuCapacity (STM_getSessionsGpuCapacity t (mSessionTaskMap s))) s)"
    by (auto split: option.splits intro: applies_emit)
  then show ?thesis
    unfolding applyGpuVotesLocked_def Let_def
    by (auto split: option.split intro: applies_trans [OF _ applies_write_entry])
qed

lemma applies_applyCpuAndGpuVotes: "applies s (applyCpuAndGpuVotes E sess t s)"
  unfolding applyCpuAndGpuVotes_def
  using applies_applyUclampLocked applies_applyGpuVotesLocked by (rule applies_trans)

lemma applies_updateUniversalBoostMode: "applies s (updateUniversalBoostMode E s)"
  unfolding updateUniversalBoostMode_def PSM_isAnyAppSessionActive_def Let_def case_prod_unfold
  by (auto simp: enableSystemTopAppBoost_def disableSystemTopAppBoost_def
      intro: applies_now applies_trans [OF applies_now applies_emit])

lemma applies_reapply: "applies s (reapply E sess s)"
  unfolding reapply_def Let_def case_prod_unfold
  by (rule applies_trans [OF applies_now
        applies_trans [OF applies_applyCpuAndGpuVotes applies_updateUniversalBoostMode]])

lemma applies_forceSessionActive: "applies s (forceSessionActive E sess b s)"
  unfolding forceSessionActive_def
  by (auto split: option.split intro: applies_trans [OF applies_write_entry applies_reapply])

lemma applies_set_profiles: "applies s (set_profiles p ts s)"
proof (induction ts arbitrary: s)
  case (Cons t ts)
  have "applies s (emit (TaskProfile t p) s)" by (simp add: applies_emit)
  also have "applies (emit (TaskProfile t p) s) (set_profiles p ts (emit (TaskProfile t p) s))"
    by (rule Cons.IH)
  finally show ?case by (simp add: set_profiles_def)
qed (simp add: set_profiles_def)

lemmas applies_intros =
  applies_refl applies_now applies_applyUclampLocked applies_applyGpuVotesLocked
  applies_applyCpuAndGpuVotes applies_updateUniversalBoostMode applies_reapply
  applies_forceSessionActive applies_set_profiles

section \<open>The invariant\<close>

lemma psm_inv_applies:
  assumes "psm_inv s" and "applies s s'"
  shows "psm_inv s'"
  using assms by (auto simp: psm_inv_def applies_def covered_def pending_timeouts_def)

text \<open>A change of votes and events that keeps the rest.\<close>

lemma psm_invI:
  assumes "psm_inv s" and "STM_wf (mSessionTaskMap s')" and "worker_inv (mEventSessionTimeoutWorker s')"
    and "\<And>sess i. covered s' sess i" and "mGpuCapacityNode s' = mGpuCapacityNode s"
    and "effects s' = effects s"
  shows "psm_inv s'"
  using assms by (simp add: psm_inv_def)

lemma schedule_timeout_pending:
  assumes "worker_inv (mEventSessionTimeoutWorker s)"
  shows "worker_inv (mEventSessionTimeoutWorker (schedule_timeout ev dl s))"
    and "pending_timeouts (schedule_timeout ev dl s) = add_mset (dl, ev) (pending_timeouts s)"
proof -
  obtain w pl where w: "mEventSessionTimeoutWorker s = (w, pl)" by fastforce
  obtain w' pl' where w': "Worker_schedule ev dl (w, pl) = (w', pl')" by fastforce
  show "worker_inv (mEventSessionTimeoutWorker (schedule_timeout ev dl s))"
    and "pending_timeouts (schedule_timeout ev dl s) = add_mset (dl, ev) (pending_timeouts s)"
    using Worker_schedule_inv [OF assms [unfolded w] w'] w w'
    by (simp_all add: schedule_timeout_def pending_timeouts_def)
qed

lemma schedule_timeout_frame [simp]:
  "mSessionTaskMap (schedule_timeout ev dl s) = mSessionTaskMap s"
  "mGpuCapacityNode (schedule_timeout ev dl s) = mGpuCapacityNode s"
  "effects (schedule_timeout ev dl s) = effects s"
  by (simp_all add: schedule_timeout_def)

lemma findSession_votes:
  "STM_findSession sess m = Some p \<Longrightarrow> STM_votes m sess = Some (votesStore m (votes (entryStore m p)))"
  "STM_findSession sess m = None \<Longrightarrow> STM_votes m sess = None"
  by (auto simp: STM_findSession_def STM_votes_def STM_abs_def)

lemma covered_put:
  assumes cov: "\<And>sess i. covered s sess i" and vs: "STM_votes (mSessionTaskMap s) sess = Some vs"
    and upd: "STM_votes (mSessionTaskMap s') = (STM_votes (mSessionTaskMap s))(sess \<mapsto> vs')"
    and other: "\<And>j. j \<noteq> i \<Longrightarrow> (voteIsActive vs' j \<longleftrightarrow> voteIsActive vs j) \<and> voteTimeout vs' j = voteTimeout vs j"
    and same: "vs' = vs \<or> voteTimeout vs' i = dl"
    and ev: "ev_sessionId ev = sess" "ev_voteId ev = i"
    and pend: "pending_timeouts s' =
      (if shouldScheduleTimeout vs i dl then add_mset (dl, ev) (pending_timeouts s) else pending_timeouts s)"
  shows "covered s' sess' j"
proof (cases "sess' = sess \<and> j = i")
  case True
  show ?thesis
  proof (cases "shouldScheduleTimeout vs i dl \<and> voteTimeout vs' i = dl")
    case False
    with same have "vs' = vs \<or> \<not> shouldScheduleTimeout vs i dl" by blast
    then show ?thesis
      using True cov [of sess i] vs upd pend same unfolding covered_def shouldScheduleTimeout_def
      by (fastforce split: if_splits)
  qed (use True upd pend ev in \<open>auto simp: covered_def\<close>)
next
  case False
  with cov [of sess' j] vs upd other [of j] pend show ?thesis
    unfolding covered_def by (cases "sess' = sess") (auto split: if_splits)
qed

lemma covered_less:
  assumes "covered s sess i" and "pending_timeouts s' = pending_timeouts s"
    and "\<And>vs'. STM_votes (mSessionTaskMap s') sess = Some vs' \<Longrightarrow> voteIsActive vs' i \<Longrightarrow>
      \<exists>vs. STM_votes (mSessionTaskMap s) sess = Some vs \<and> voteIsActive vs i
        \<and> (i = vote_id CPU_VOTE_DEFAULT \<or> voteTimeout vs' i = voteTimeout vs i)"
  shows "covered s' sess i"
  using assms unfolding covered_def by fastforce

lemma psm_inv_write_votes:
  assumes inv: "psm_inv s" and wf: "\<And>vs. Votes_wf vs \<Longrightarrow> Votes_wf (f vs)"
    and keep: "\<And>vs i. voteIsActive (f vs) i \<Longrightarrow>
      voteIsActive vs i \<and> (i = vote_id CPU_VOTE_DEFAULT \<or> voteTimeout (f vs) i = voteTimeout vs i)"
  shows "psm_inv (on_map (STM_write_votes sess f) s)"
proof (rule psm_invI [OF inv])
  have m: "STM_wf (mSessionTaskMap s)" and cov: "\<And>sess i. covered s sess i"
    using inv by (simp_all add: psm_inv_def)
  show "covered (on_map (STM_write_votes sess f) s) sess' i" for sess' i
    by (rule covered_less [OF cov [of sess' i]])
      (use keep in \<open>auto simp: on_map_def STM_votes_write_votes [OF m] pending_timeouts_def split: if_splits\<close>)
qed (use inv in \<open>auto simp: psm_inv_def on_map_def STM_write_votes_wf wf\<close>)

text \<open>
  Setting a vote, for both kinds: \<open>vs'\<close> is the votes object afterwards and \<open>apply\<close> the
  locked application that follows.
\<close>

lemma psm_inv_vote:
  assumes inv: "psm_inv s" and p: "STM_findSession sess (mSessionTaskMap s) = Some p"
    and vs: "vs = votesStore (mSessionTaskMap s) (votes (entryStore (mSessionTaskMap s) p))"
    and f: "\<And>v. Votes_wf v \<Longrightarrow> Votes_wf (f v)"
    and other: "\<And>j. j \<noteq> i \<Longrightarrow> (voteIsActive (f vs) j \<longleftrightarrow> voteIsActive vs j) \<and> voteTimeout (f vs) j = voteTimeout vs j"
    and same: "f vs = vs \<or> voteTimeout (f vs) i = dl"
    and ev: "ev_sessionId ev = sess" "ev_voteId ev = i"
    and app: "applies (on_map (STM_write_votes sess f) s) s'"
  shows "psm_inv (if shouldScheduleTimeout vs i dl then schedule_timeout ev dl s' else s')"
proof -
  let ?s1 = "on_map (STM_write_votes sess f) s"
  let ?s2 = "if shouldScheduleTimeout vs i dl then schedule_timeout ev dl ?s1 else ?s1"
  have wf: "STM_wf (mSessionTaskMap s)" and w: "worker_inv (mEventSessionTimeoutWorker s)"
    and cov: "\<And>sess i. covered s sess i"
    using inv by (simp_all add: psm_inv_def)
  have v: "STM_votes (mSessionTaskMap s) sess = Some vs" using findSession_votes(1) [OF p] vs by simp
  have upd: "STM_votes (mSessionTaskMap ?s1) = (STM_votes (mSessionTaskMap s))(sess \<mapsto> f vs)"
    using v by (simp add: on_map_def STM_votes_write_votes [OF wf])
  have w1: "worker_inv (mEventSessionTimeoutWorker ?s1)" and p1: "pending_timeouts ?s1 = pending_timeouts s"
    using w by (simp_all add: on_map_def pending_timeouts_def)
  have "psm_inv ?s2"
  proof (rule psm_invI [OF inv])
    show "covered ?s2 sess' j" for sess' j
      by (rule covered_put [OF cov v _ other same ev])
        (simp_all add: upd schedule_timeout_pending(2) [OF w1] p1)
    show "worker_inv (mEventSessionTimeoutWorker ?s2)"
      using schedule_timeout_pending(1) [OF w1] w1 by simp
  qed (use wf f in \<open>simp_all add: on_map_def STM_write_votes_wf\<close>)
  moreover have "applies ?s2 (if shouldScheduleTimeout vs i dl then schedule_timeout ev dl s' else s')"
    using app by (auto simp: applies_def schedule_timeout_def)
  ultimately show ?thesis by (rule psm_inv_applies)
qed

lemma add_cpu_other:
  "j \<noteq> i \<Longrightarrow> (voteIsActive (Votes_addCpu i v vs) j \<longleftrightarrow> voteIsActive vs j)
     \<and> voteTimeout (Votes_addCpu i v vs) j = voteTimeout vs j"
  by (simp add: voteIsActive_abs voteTimeout_abs Votes_abs_addCpu)

lemma add_cpu_same:
  "Votes_addCpu i v vs = vs \<or> voteTimeout (Votes_addCpu i v vs) i = mStartTime v + mDurationNs v"
  using cpu_votes.timeout_put [of i v vs i] by (auto simp: Votes_addCpu_def)

lemma add_gpu_other:
  "j \<noteq> i \<Longrightarrow> (voteIsActive (Votes_addGpu i v vs) j \<longleftrightarrow> voteIsActive vs j)
     \<and> voteTimeout (Votes_addGpu i v vs) j = voteTimeout vs j"
  by (simp add: voteIsActive_abs voteTimeout_abs Votes_abs_addGpu)

lemma add_gpu_same:
  "Votes_addGpu i v vs = vs \<or> voteTimeout (Votes_addGpu i v vs) i = mStartTime v + mDurationNs v"
  using gpu_votes.timeout_put [of i v vs i] by (auto simp: Votes_addGpu_def)

lemma mkVote_deadline [simp]:
  "mStartTime (mkCpuVote a t d lo hi) + mDurationNs (mkCpuVote a t d lo hi) = t + d"
  "mStartTime (mkGpuVote a t d c) + mDurationNs (mkGpuVote a t d c) = t + d"
  by (simp_all add: mkCpuVote_def mkGpuVote_def)

lemma psm_inv_voteSet_cpu:
  assumes inv: "psm_inv s"
  shows "psm_inv (voteSet_cpu E sess v lo hi t dur s)"
proof (cases "STM_findSession sess (mSessionTaskMap s)")
  case (Some p)
  let ?f = "Votes_addCpu (vote_id v) (mkCpuVote True t dur lo hi)"
  let ?s1 = "on_map (STM_write_votes sess ?f) s"
  have "applies ?s1 (applyUclampLocked E sess t
      (on_map (STM_write_entry sess (\<lambda>e. e\<lparr>lastUpdatedTime := t\<rparr>)) ?s1))"
    by (rule applies_trans [OF applies_write_entry applies_applyUclampLocked]) simp_all
  from psm_inv_vote [OF inv Some refl Votes_wf_addCpu add_cpu_other
      add_cpu_same [of _ "mkCpuVote True t dur lo hi", unfolded mkVote_deadline] _ _ this,
      of "\<lparr>timeStamp = t, ev_sessionId = sess, ev_voteId = vote_id v\<rparr>"]
  show ?thesis by (simp add: Some voteSet_cpu_def Let_def STM_addVote_write [abs_def])
qed (simp add: voteSet_cpu_def inv)

lemma psm_inv_voteSet_gpu:
  assumes inv: "psm_inv s"
  shows "psm_inv (voteSet_gpu E sess v cap t dur s)"
proof (cases "STM_findSession sess (mSessionTaskMap s)")
  case (Some p)
  let ?f = "Votes_addGpu (vote_id v) (mkGpuVote True t dur cap)"
  let ?s1 = "on_map (STM_write_votes sess ?f) s"
  have "applies ?s1 (applyGpuVotesLocked E sess t
      (on_map (STM_write_entry sess (\<lambda>e. e\<lparr>lastUpdatedTime := t\<rparr>)) ?s1))"
    by (rule applies_trans [OF applies_write_entry applies_applyGpuVotesLocked]) simp_all
  from psm_inv_vote [OF inv Some refl Votes_wf_addGpu add_gpu_other
      add_gpu_same [of _ "mkGpuVote True t dur cap", unfolded mkVote_deadline] _ _ this,
      of "\<lparr>timeStamp = t, ev_sessionId = sess, ev_voteId = vote_id v\<rparr>"]
  show ?thesis by (simp add: Some voteSet_gpu_def Let_def STM_addGpuVote_write [abs_def])
qed (simp add: voteSet_gpu_def inv)

lemma psm_inv_disableBoosts: "psm_inv s \<Longrightarrow> psm_inv (disableBoosts sess s)"
  unfolding disableBoosts_def
proof (rule psm_inv_write_votes, assumption)
  let ?off = "\<lambda>vid vs. snd (setUseVote (vote_id vid) False vs)"
  show "Votes_wf (fold ?off boost_votes vs)" if "Votes_wf vs" for vs
    using that by (intro fold_invariant [where Q = "\<lambda>_. True" and P = Votes_wf]) (auto intro: Votes_wf_ops)
  have fold: "fold ?off vids = fold (\<lambda>i vs. snd (setUseVote i False vs)) (map vote_id vids)" for vids
    by (simp add: fold_map comp_def)
  show "voteIsActive vs i \<and> (i = vote_id CPU_VOTE_DEFAULT \<or>
      voteTimeout (fold ?off boost_votes vs) i = voteTimeout vs i)"
    if "voteIsActive (fold ?off boost_votes vs) i" for vs i
    using that unfolding fold by (simp add: cpu_votes.active_disable_all cpu_votes.timeout_disable_all)
qed

lemma psm_inv_updateTarget: "psm_inv s \<Longrightarrow> psm_inv (PSM_updateTargetWorkDuration sess CPU_VOTE_DEFAULT dur s)"
  unfolding PSM_updateTargetWorkDuration_def
proof (rule psm_inv_write_votes, assumption)
  let ?i = "vote_id CPU_VOTE_DEFAULT"
  show "voteIsActive vs i \<and> (i = ?i \<or> voteTimeout (Votes_updateDuration ?i dur vs) i = voteTimeout vs i)"
    if "voteIsActive (Votes_updateDuration ?i dur vs) i" for vs i
  proof (cases "i = ?i")
    case True
    have "vote_active (vote_set_duration dur v) = vote_active v" for v by (cases v) (simp_all add: VoteRange_updateDuration_def)
    with that True show ?thesis by (auto simp: voteIsActive_abs Votes_abs_updateDuration)
  qed (use that in \<open>auto simp: voteIsActive_abs voteTimeout_abs Votes_abs_updateDuration\<close>)
qed (rule Votes_wf_updateDuration)

subsection \<open>Sessions and threads\<close>

lemma setThreads_steps:
  "setThreadsFromPowerSession E sess ts s =
     (let s1 = forceSessionActive E sess False s; r = STM_replace sess ts (mSessionTaskMap s1)
      in forceSessionActive E sess True (set_profiles ''NoResetUclampGrp'' (fst (snd (snd r)))
           (set_profiles ''ResetUclampGrp'' (fst (snd r))
             (s1\<lparr>mSessionTaskMap := STM_replaced sess ts (mSessionTaskMap s1)\<rparr>))))"
  by (simp add: setThreadsFromPowerSession_def Let_def case_prod_unfold)

lemma applies_setThreads: "applies s (setThreadsFromPowerSession E sess ts s)"
proof -
  let ?s1 = "forceSessionActive E sess False s"
  have "applies s ?s1" by (rule applies_forceSessionActive)
  also have "applies ?s1 (?s1\<lparr>mSessionTaskMap := STM_replaced sess ts (mSessionTaskMap ?s1)\<rparr>)"
    by (simp add: applies_def STM_replace_wf STM_votes_replace)
  finally have "applies s (?s1\<lparr>mSessionTaskMap := STM_replaced sess ts (mSessionTaskMap ?s1)\<rparr>)" .
  then show ?thesis
    unfolding setThreads_steps Let_def
    by (rule applies_trans [OF _ applies_trans [OF applies_set_profiles
          applies_trans [OF applies_set_profiles applies_forceSessionActive]]])
qed

lemma add_session_map:
  assumes wf: "STM_wf m" and vs: "Votes_wf vs" and q: "new_votes vs m = (q, m1)" and sve: "votes sve = q"
  shows "STM_wf (snd (STM_add sess sve [] m1))"
    "STM_votes (snd (STM_add sess sve [] m1)) =
      (STM_votes m)(sess \<mapsto> (case STM_votes m sess of None \<Rightarrow> vs | Some v \<Rightarrow> v))"
proof -
  note nv = new_votes_props [OF wf vs q]
  show "STM_wf (snd (STM_add sess sve [] m1))" using STM_add_wf [OF nv(1) nv(5)] sve by simp
  have "votesStore (snd (STM_add sess sve [] m1)) = votesStore m1" by (simp add: STM_add_def Let_def)
  moreover have "STM_votes m1 = STM_votes m" "votesStore m1 q = vs" "STM_abs m1 = STM_abs m" using nv by simp_all
  ultimately show "STM_votes (snd (STM_add sess sve [] m1)) =
      (STM_votes m)(sess \<mapsto> (case STM_votes m sess of None \<Rightarrow> vs | Some v \<Rightarrow> v))"
    using sve by (auto simp: STM_votes_def STM_abs_add [OF nv(1)] fun_eq_iff split: option.splits)
qed

text \<open>What \<open>addPowerSession\<close> does before it sets the threads.\<close>

lemma addPowerSession_steps:
  assumes inv: "psm_inv s"
  obtains m2 where "STM_wf m2"
    "STM_votes m2 = (STM_votes (mSessionTaskMap s))(desc_sessionId d \<mapsto>
       (case STM_votes (mSessionTaskMap s) (desc_sessionId d) of None \<Rightarrow> default_votes (fst (steady_now E s)) d | Some v \<Rightarrow> v))"
    "addPowerSession E idStr (Some d) ts s =
      setThreadsFromPowerSession E (desc_sessionId d) ts ((snd (steady_now E s))\<lparr>mSessionTaskMap := m2\<rparr>)"
proof -
  let ?vs = "default_votes (fst (steady_now E s)) d"
  obtain q m1 where q: "new_votes ?vs (mSessionTaskMap s) = (q, m1)" by fastforce
  have wf: "STM_wf (mSessionTaskMap s)" using inv by (simp add: psm_inv_def)
  have wfv: "Votes_wf ?vs" by (simp add: default_votes_def Votes_wf_addCpu)
  have m: "mSessionTaskMap (snd (steady_now E s)) = mSessionTaskMap s" by (simp add: steady_now_def emit_def)
  show ?thesis
    by (rule that [OF add_session_map [OF wf wfv q]])
      (use q in \<open>auto simp: addPowerSession_def Let_def case_prod_unfold default_votes_def m\<close>)
qed

lemma psm_inv_addPowerSession:
  assumes inv: "psm_inv s"
  shows "psm_inv (addPowerSession E idStr d ts s)"
proof (cases d)
  case (Some desc)
  let ?s1 = "snd (steady_now E s)" and ?sess = "desc_sessionId desc"
  from addPowerSession_steps [OF inv] obtain m2 where m2: "STM_wf m2"
    "STM_votes m2 = (STM_votes (mSessionTaskMap s))(?sess \<mapsto>
       (case STM_votes (mSessionTaskMap s) ?sess of None \<Rightarrow> default_votes (fst (steady_now E s)) desc | Some v \<Rightarrow> v))"
    "addPowerSession E idStr (Some desc) ts s = setThreadsFromPowerSession E ?sess ts (?s1\<lparr>mSessionTaskMap := m2\<rparr>)"
    by blast
  have inv1: "psm_inv ?s1" using inv applies_now by (rule psm_inv_applies)
  have m: "mSessionTaskMap ?s1 = mSessionTaskMap s" by (simp add: steady_now_def emit_def)
  have inactive: "\<not> voteIsActive (default_votes t desc) i" for t i
    by (auto simp: default_votes_def voteIsActive_abs Votes_abs_addCpu mkCpuVote_def split: if_splits)
  have "psm_inv (?s1\<lparr>mSessionTaskMap := m2\<rparr>)"
  proof (rule psm_invI [OF inv1])
    show "covered (?s1\<lparr>mSessionTaskMap := m2\<rparr>) sess' i" for sess' i
      by (rule covered_less [of ?s1])
        (use inv1 inactive in \<open>auto simp: psm_inv_def pending_timeouts_def m2(2) m split: if_splits option.splits\<close>)
  qed (use inv1 m2(1) in \<open>simp_all add: psm_inv_def\<close>)
  then show ?thesis
    unfolding Some m2(3) using applies_setThreads by (rule psm_inv_applies)
qed (simp add: addPowerSession_def inv)

lemma applies_session_map:
  "applies s (registerSession p sess s)" "applies s (unregisterSession sess s)"
  "applies s (snd (getSession alive sess s))" "applies s (PSM_clear s)"
  by (simp_all add: applies_def registerSession_def unregisterSession_def getSession_def PSM_clear_def
      split: option.splits)

lemma removePowerSession_steps:
  "removePowerSession E sess s =
     (let s1 = forceSessionActive E sess False s; r = STM_replace sess [] (mSessionTaskMap s1)
      in unregisterSession sess (set_profiles ''NoResetUclampGrp'' (fst (snd (snd r)))
           (s1\<lparr>mSessionTaskMap := snd (STM_remove sess (STM_replaced sess [] (mSessionTaskMap s1)))\<rparr>)))"
  by (simp add: removePowerSession_def Let_def case_prod_unfold)

lemma psm_inv_removePowerSession:
  assumes inv: "psm_inv s"
  shows "psm_inv (removePowerSession E sess s)"
proof -
  let ?s1 = "forceSessionActive E sess False s"
  let ?m = "snd (STM_remove sess (STM_replaced sess [] (mSessionTaskMap ?s1)))"
  have inv1: "psm_inv ?s1" using inv applies_forceSessionActive by (rule psm_inv_applies)
  then have wf: "STM_wf (mSessionTaskMap ?s1)" by (simp add: psm_inv_def)
  have votes: "STM_votes ?m = (STM_votes (mSessionTaskMap ?s1))(sess := None)"
    by (simp add: STM_votes_remove STM_votes_replace [OF wf])
  have "psm_inv (?s1\<lparr>mSessionTaskMap := ?m\<rparr>)"
  proof (rule psm_invI [OF inv1])
    show "STM_wf (mSessionTaskMap (?s1\<lparr>mSessionTaskMap := ?m\<rparr>))"
      using stm.unlink_then_remove(1) [OF wf] by simp
    show "covered (?s1\<lparr>mSessionTaskMap := ?m\<rparr>) sess' i" for sess' i
      by (rule covered_less [of ?s1])
        (use inv1 in \<open>auto simp: psm_inv_def pending_timeouts_def votes split: if_splits\<close>)
  qed (use inv1 in \<open>simp_all add: psm_inv_def\<close>)
  then have "psm_inv (unregisterSession sess (set_profiles ''NoResetUclampGrp'' r (?s1\<lparr>mSessionTaskMap := ?m\<rparr>)))" for r
    by (rule psm_inv_applies [OF psm_inv_applies [OF _ applies_set_profiles] applies_session_map(2)])
  then show ?thesis unfolding removePowerSession_steps Let_def .
qed

subsection \<open>Timeout events\<close>

lemma psm_inv_handleEvent:
  assumes wf: "STM_wf (mSessionTaskMap s)" and w: "worker_inv (mEventSessionTimeoutWorker s)"
    and ok: "list_all (effect_ok (mGpuCapacityNode s)) (effects s)"
    and cov: "\<And>sess i. (sess, i) \<noteq> (ev_sessionId ev, ev_voteId ev) \<Longrightarrow> covered s sess i"
  shows "psm_inv (handleEvent E ev s)"
proof -
  let ?s1 = "snd (steady_now E s)" and ?now = "fst (steady_now E s)"
  let ?sess = "ev_sessionId ev" and ?i = "ev_voteId ev"
  have s1: "mSessionTaskMap ?s1 = mSessionTaskMap s"
      "mEventSessionTimeoutWorker ?s1 = mEventSessionTimeoutWorker s"
      "mGpuCapacityNode ?s1 = mGpuCapacityNode s" "effects ?s1 = effects s @ [ClockRead]"
    by (simp_all add: steady_now_def emit_def)
  then have cov1: "covered ?s1 sess i \<longleftrightarrow> covered s sess i" for sess i
    by (simp add: covered_def pending_timeouts_def)
  have invI: "psm_inv s'" if "STM_wf (mSessionTaskMap s')" "worker_inv (mEventSessionTimeoutWorker s')"
      "mGpuCapacityNode s' = mGpuCapacityNode s" "effects s' = effects ?s1" "\<And>sess i. covered s' sess i" for s'
    using that ok s1 by (simp add: psm_inv_def)
  show ?thesis
  proof (cases "STM_findSession ?sess (mSessionTaskMap s)")
    case None
    then have "covered ?s1 sess i" for sess i
      using cov [of sess i] cov1 findSession_votes(2) [OF None] by (cases "(sess, i) = (?sess, ?i)") (auto simp: covered_def s1)
    then have "psm_inv ?s1" by (intro invI) (simp_all add: s1 wf w)
    with None show ?thesis by (simp add: handleEvent_def Let_def case_prod_unfold s1)
  next
    case (Some p)
    let ?vs = "votesStore (mSessionTaskMap s) (votes (entryStore (mSessionTaskMap s) p))"
    note v = findSession_votes(1) [OF Some]
    consider "\<not> voteIsActive ?vs ?i" | "voteIsActive ?vs ?i" "voteTimeout ?vs ?i \<le> ?now"
      | "voteIsActive ?vs ?i" "\<not> voteTimeout ?vs ?i \<le> ?now" by blast
    then show ?thesis
    proof cases
      case 1
      then have "covered ?s1 sess i" for sess i
        using cov [of sess i] cov1 v by (cases "(sess, i) = (?sess, ?i)") (auto simp: covered_def s1)
      then have "psm_inv ?s1" by (intro invI) (simp_all add: s1 wf w)
      with 1 Some show ?thesis by (simp add: handleEvent_def Let_def case_prod_unfold s1)
    next
      case 2
      let ?s2 = "on_map (STM_write_votes ?sess (\<lambda>v. snd (setUseVote ?i False v))) ?s1"
      have votes2: "STM_votes (mSessionTaskMap ?s2) =
          (STM_votes (mSessionTaskMap s))(?sess \<mapsto> snd (setUseVote ?i False ?vs))"
        using v by (simp add: on_map_def s1 STM_votes_write_votes [OF wf])
      have "covered ?s2 sess i" for sess i
      proof (cases "(sess, i) = (?sess, ?i)")
        case False
        have "pending_timeouts ?s2 = pending_timeouts s" by (simp add: pending_timeouts_def on_map_def s1)
        then show ?thesis
          by (rule covered_less [OF cov [OF False]])
            (use v in \<open>auto simp: votes2 cpu_votes.active_disable cpu_votes.timeout_disable split: if_splits\<close>)
      qed (auto simp: covered_def votes2 cpu_votes.active_disable)
      then have "psm_inv ?s2"
        by (intro invI) (simp_all add: on_map_def s1 wf w STM_write_votes_wf Votes_wf_setUseVote)
      then have "psm_inv (updateUniversalBoostMode E (applyCpuAndGpuVotes E ?sess ?now ?s2))"
        by (rule psm_inv_applies [OF psm_inv_applies [OF _ applies_applyCpuAndGpuVotes] applies_updateUniversalBoostMode])
      with 2 Some show ?thesis by (simp add: handleEvent_def Let_def case_prod_unfold s1)
    next
      case 3
      let ?s2 = "schedule_timeout ev (voteTimeout ?vs ?i) ?s1"
      have w1: "worker_inv (mEventSessionTimeoutWorker ?s1)" using w by (simp add: s1)
      have p2: "pending_timeouts ?s2 = add_mset (voteTimeout ?vs ?i, ev) (pending_timeouts s)"
        using schedule_timeout_pending(2) [OF w1] by (simp add: pending_timeouts_def s1)
      have "covered ?s2 sess i" for sess i
        using cov [of sess i] v p2
        by (cases "(sess, i) = (?sess, ?i)") (auto simp: covered_def s1)
      then have "psm_inv ?s2"
        by (intro invI) (simp_all add: s1 wf schedule_timeout_pending(1) [OF w1])
      with 3 Some show ?thesis by (simp add: handleEvent_def Let_def case_prod_unfold s1)
    qed
  qed
qed

lemma psm_inv_PSM_fire:
  assumes inv: "psm_inv s"
  shows "psm_inv (PSM_fire E s)"
proof (cases "mPackageQueue (snd (mEventSessionTimeoutWorker s)) = []")
  case True
  then have "PSM_fire E s = s"
    using Worker_fire_empty [OF True, of "fst (mEventSessionTimeoutWorker s)"] by (simp add: PSM_fire_def)
  with inv show ?thesis by simp
next
  case False
  obtain w pl where wp: "mEventSessionTimeoutWorker s = (w, pl)" by fastforce
  with inv False have "worker_inv (w, pl)" "mPackageQueue pl \<noteq> []" by (simp_all add: psm_inv_def)
  then obtain d ev w' pl' where fire: "Worker_fire (w, pl) = (Some ev, w', pl')" "worker_inv (w', pl')"
      "worker_pending w pl = add_mset (d, ev) (worker_pending w' pl')"
    by (rule Worker_fire_inv) blast
  let ?s = "s\<lparr>mEventSessionTimeoutWorker := (w', pl')\<rparr>"
  have p: "pending_timeouts s = add_mset (d, ev) (pending_timeouts ?s)"
    by (simp add: pending_timeouts_def wp fire(3))
  have "psm_inv (handleEvent E ev ?s)"
  proof (rule psm_inv_handleEvent)
    fix sess i assume ne: "(sess, i) \<noteq> (ev_sessionId ev, ev_voteId ev)"
    from inv have "covered s sess i" by (simp add: psm_inv_def)
    with ne show "covered ?s sess i" by (auto simp: covered_def p)
  qed (use inv fire in \<open>simp_all add: psm_inv_def\<close>)
  then show ?thesis by (simp add: PSM_fire_def wp fire(1))
qed

subsection \<open>Every step\<close>

lemma applies_pause: "applies s (PSM_pause E sess s)"
  unfolding PSM_pause_def
  by (auto split: option.split intro: applies_trans [OF applies_write_entry applies_reapply])

lemma applies_resume: "applies s (PSM_resume E sess s)"
  unfolding PSM_resume_def
  by (auto split: option.split intro: applies_trans [OF applies_write_entry applies_reapply])

lemma applies_setPreferPowerEfficiency: "applies s (setPreferPowerEfficiency E sess b s)"
  unfolding setPreferPowerEfficiency_def Let_def case_prod_unfold
  by (auto split: option.split
      intro: applies_trans [OF applies_write_entry applies_trans [OF applies_now applies_applyUclampLocked]])

lemma applies_updateHintMode: "applies s (updateHintMode E mode b s)"
  by (simp add: applies_def updateHintMode_def Let_def emit_def)

lemma psm_inv_init: "psm_inv (PSM_init E)"
proof -
  have "STM_wf STM_init" by (simp add: STM_wf_def STM_init_def task_get_def STM_abs_def)
  moreover have "STM_votes STM_init sess = None" for sess
    by (simp add: STM_votes_def STM_abs_def STM_init_def)
  ultimately show ?thesis by (simp add: psm_inv_def PSM_init_def worker_inv_start covered_def)
qed

lemma psm_inv_step: "psm_inv s \<Longrightarrow> psm_step E s t \<Longrightarrow> psm_inv t"
  by (erule psm_step.cases)
    (simp_all add: psm_inv_addPowerSession psm_inv_removePowerSession psm_inv_voteSet_cpu psm_inv_voteSet_gpu
      psm_inv_disableBoosts psm_inv_updateTarget psm_inv_PSM_fire
      psm_inv_applies [OF _ applies_setThreads] psm_inv_applies [OF _ applies_pause]
      psm_inv_applies [OF _ applies_resume] psm_inv_applies [OF _ applies_setPreferPowerEfficiency]
      psm_inv_applies [OF _ applies_updateUniversalBoostMode] psm_inv_applies [OF _ applies_updateHintMode]
      psm_inv_applies [OF _ applies_session_map(1)] psm_inv_applies [OF _ applies_session_map(2)]
      psm_inv_applies [OF _ applies_session_map(3)] psm_inv_applies [OF _ applies_session_map(4)]
      psm_inv_applies [OF _ applies_now] psm_inv_applies [OF _ applies_emit])

interpretation manager: invariant_of "\<lambda>s. s = PSM_init E" "psm_step E" psm_inv for E
  by unfold_locales (auto intro: psm_inv_init psm_inv_step)

subsection \<open>Other sessions\<close>

lemma others_write_entry:
  assumes "STM_wf (mSessionTaskMap s)" and "sess' \<noteq> sess"
  shows "STM_abs (mSessionTaskMap (on_map (STM_write_entry sess f) s)) sess' = STM_abs (mSessionTaskMap s) sess'"
  using assms by (simp add: on_map_def STM_write_entry_abs)

lemma others_uclamp_loop:
  assumes "STM_wf (mSessionTaskMap s)" and "sess' \<noteq> sess"
  shows "STM_abs (mSessionTaskMap (uclamp_loop E cfg sess t i s)) sess' = STM_abs (mSessionTaskMap s) sess'"
  using assms
proof (induction E cfg sess t i s rule: uclamp_loop.induct)
  case (1 E cfg sess t i s)
  let ?m = "mSessionTaskMap s" and ?ts = "STM_getTaskIds sess (mSessionTaskMap s)"
  let ?rng = "STM_getTaskVoteRange (?ts ! i) t UclampRange_default (mUclampMaxEfficientBase cfg)
      (efficient_offset E cfg) ?m"
  obtain stat s1 where s1: "set_uclamp E (?ts ! i) ?rng s = (stat, s1)" by fastforce
  then have m1: "mSessionTaskMap s1 = ?m"
    using set_uclamp_map [of E "?ts ! i" ?rng s] by simp
  let ?s2 = "on_map (\<lambda>m. STM_erase_linked sess i (snd (STM_removeDeadTaskSessionMap sess (?ts ! i) m))) s1"
  show ?case
  proof (cases "i < length ?ts")
    case True
    then obtain e where abs: "STM_abs ?m sess = Some (e, ?ts)"
      by (auto simp: STM_getTaskIds_def STM_abs_def split: option.splits)
    have m2: "STM_wf (mSessionTaskMap ?s2)" "STM_abs (mSessionTaskMap ?s2) sess' = STM_abs ?m sess'"
      using drop_dead_abs [OF 1(3) abs True] drop_dead_wf [OF 1(3) abs True] 1(4)
      by (simp_all add: on_map_def m1)
    have "STM_abs (mSessionTaskMap (if stat = kESRCH then uclamp_loop E cfg sess t i ?s2
        else uclamp_loop E cfg sess t (Suc i) s1)) sess' = STM_abs ?m sess'"
      using 1(1) [OF refl True refl refl s1 [symmetric] refl _ m2(1) 1(4)]
        1(2) [OF refl True refl refl s1 [symmetric] refl _ _ 1(4)] 1(3) m1 m2(2) by simp
    with True s1 show ?thesis by (subst uclamp_loop.simps) (simp add: Let_def)
  qed (subst uclamp_loop.simps, simp)
qed

lemma uclamp_loop_wf:
  "STM_wf (mSessionTaskMap s) \<Longrightarrow> STM_wf (mSessionTaskMap (uclamp_loop E cfg sess t i s))"
  using applies_uclamp_loop [of s E cfg sess t i] by (simp add: applies_def)

lemma others_applyCpuAndGpuVotes:
  assumes "STM_wf (mSessionTaskMap s)" and "sess' \<noteq> sess"
  shows "STM_abs (mSessionTaskMap (applyCpuAndGpuVotes E sess t s)) sess' = STM_abs (mSessionTaskMap s) sess'"
proof -
  have u: "STM_wf (mSessionTaskMap (applyUclampLocked E sess t s))"
    using assms applies_applyUclampLocked [of s E sess t] by (simp add: applies_def)
  have "STM_abs (mSessionTaskMap (applyUclampLocked E sess t s)) sess' = STM_abs (mSessionTaskMap s) sess'"
    using assms by (auto simp: applyUclampLocked_def Let_def others_write_entry uclamp_loop_wf
        others_uclamp_loop split: option.split)
  moreover have "STM_abs (mSessionTaskMap (applyGpuVotesLocked E sess t s')) sess' = STM_abs (mSessionTaskMap s') sess'"
    if "STM_wf (mSessionTaskMap s')" for s'
    using that assms(2)
    by (auto simp: applyGpuVotesLocked_def Let_def others_write_entry emit_def split: option.split)
  ultimately show ?thesis using u by (simp add: applyCpuAndGpuVotes_def)
qed

lemma updateUniversalBoostMode_map [simp]:
  "mSessionTaskMap (updateUniversalBoostMode E s) = mSessionTaskMap s"
  by (simp add: updateUniversalBoostMode_def PSM_isAnyAppSessionActive_def steady_now_def emit_def
      enableSystemTopAppBoost_def disableSystemTopAppBoost_def)

lemma others_forceSessionActive:
  assumes "STM_wf (mSessionTaskMap s)" and "sess' \<noteq> sess"
  shows "STM_abs (mSessionTaskMap (forceSessionActive E sess b s)) sess' = STM_abs (mSessionTaskMap s) sess'"
proof -
  let ?s1 = "on_map (STM_write_entry sess (isActive_update (\<lambda>_. b))) s"
  have "STM_wf (mSessionTaskMap (snd (steady_now E ?s1)))"
    using assms by (simp add: steady_now_def emit_def on_map_def STM_write_entry_wf)
  from others_applyCpuAndGpuVotes [OF this assms(2)]
  have "STM_abs (mSessionTaskMap (reapply E sess ?s1)) sess' = STM_abs (mSessionTaskMap s) sess'"
    using others_write_entry [OF assms]
    by (simp add: reapply_def Let_def case_prod_unfold) (simp add: steady_now_def emit_def)
  then show ?thesis by (auto simp: forceSessionActive_def split: option.split)
qed

lemma set_profiles_frame [simp]:
  "mSessionTaskMap (set_profiles p ts s) = mSessionTaskMap s"
  "mSessionMap (set_profiles p ts s) = mSessionMap s"
  "effects (set_profiles p ts s) = effects s @ map (\<lambda>t. TaskProfile t p) ts"
  unfolding set_profiles_def by (induction ts arbitrary: s) (simp_all add: emit_def)

subsection \<open>Dead threads\<close>

lemma STM_getTaskIds_abs: "STM_getTaskIds sess m = (case STM_abs m sess of None \<Rightarrow> [] | Some (e, ts) \<Rightarrow> ts)"
  by (simp add: STM_getTaskIds_def STM_abs_def split: option.split)

lemma uclamp_loop_threads:
  assumes "STM_wf (mSessionTaskMap s)" and "\<And>h t. setattr_errno E h t = kESRCH \<longleftrightarrow> dead t"
  shows "STM_getTaskIds sess (mSessionTaskMap (uclamp_loop E cfg sess tp i s)) =
    take i (STM_getTaskIds sess (mSessionTaskMap s))
      @ filter (\<lambda>t. \<not> dead t) (drop i (STM_getTaskIds sess (mSessionTaskMap s)))"
  using assms
proof (induction E cfg sess tp i s rule: uclamp_loop.induct)
  case (1 E cfg sess tp i s)
  let ?m = "mSessionTaskMap s" and ?ts = "STM_getTaskIds sess (mSessionTaskMap s)"
  let ?rng = "STM_getTaskVoteRange (?ts ! i) tp UclampRange_default (mUclampMaxEfficientBase cfg)
      (efficient_offset E cfg) ?m"
  obtain stat s1 where s1: "set_uclamp E (?ts ! i) ?rng s = (stat, s1)" by fastforce
  then have m1: "mSessionTaskMap s1 = ?m" and stat: "stat = kESRCH \<longleftrightarrow> dead (?ts ! i)"
    using set_uclamp_map [of E "?ts ! i" ?rng s] 1(4) by (auto simp: set_uclamp_def Let_def)
  let ?s2 = "on_map (\<lambda>m. STM_erase_linked sess i (snd (STM_removeDeadTaskSessionMap sess (?ts ! i) m))) s1"
  show ?case
  proof (cases "i < length ?ts")
    case True
    then obtain e where abs: "STM_abs ?m sess = Some (e, ?ts)"
      by (auto simp: STM_getTaskIds_def STM_abs_def split: option.splits)
    have d: "drop i ?ts = ?ts ! i # drop (Suc i) ?ts" "take (Suc i) ?ts = take i ?ts @ [?ts ! i]"
      using True by (simp_all add: Cons_nth_drop_Suc take_Suc_conv_app_nth)
    have m2: "STM_wf (mSessionTaskMap ?s2)"
      "STM_getTaskIds sess (mSessionTaskMap ?s2) = take i ?ts @ drop (Suc i) ?ts"
      using drop_dead_abs [OF 1(3) abs True] drop_dead_wf [OF 1(3) abs True]
      by (simp_all add: on_map_def m1 STM_getTaskIds_abs)
    have "STM_getTaskIds sess (mSessionTaskMap (if stat = kESRCH then uclamp_loop E cfg sess tp i ?s2
        else uclamp_loop E cfg sess tp (Suc i) s1)) = take i ?ts @ filter (\<lambda>t. \<not> dead t) (drop i ?ts)"
      using 1(1) [OF refl True refl refl s1 [symmetric] refl _ m2(1) 1(4)]
        1(2) [OF refl True refl refl s1 [symmetric] refl _ _ 1(4)] 1(3) m1 m2(2) True d stat by simp
    with True s1 show ?thesis by (subst uclamp_loop.simps) (simp add: Let_def)
  qed (subst uclamp_loop.simps, simp)
qed

subsection \<open>Expiry\<close>

lemma handleEvent_votes:
  assumes wf: "STM_wf (mSessionTaskMap s)"
  shows "STM_votes (mSessionTaskMap (handleEvent E ev s)) = STM_votes (mSessionTaskMap s)
    \<or> STM_votes (mSessionTaskMap (handleEvent E ev s)) = (STM_votes (mSessionTaskMap s))(ev_sessionId ev :=
         map_option (\<lambda>v. snd (setUseVote (ev_voteId ev) False v)) (STM_votes (mSessionTaskMap s) (ev_sessionId ev)))"
proof -
  let ?s1 = "snd (steady_now E s)" and ?now = "fst (steady_now E s)"
  let ?s2 = "on_map (STM_write_votes (ev_sessionId ev) (\<lambda>v. snd (setUseVote (ev_voteId ev) False v))) ?s1"
  have s1: "mSessionTaskMap ?s1 = mSessionTaskMap s" by (simp add: steady_now_def emit_def)
  have w2: "STM_wf (mSessionTaskMap ?s2)"
    using wf by (simp add: on_map_def s1 STM_write_votes_wf Votes_wf_setUseVote)
  have "applies ?s2 (updateUniversalBoostMode E (applyCpuAndGpuVotes E (ev_sessionId ev) ?now ?s2))"
    by (rule applies_trans [OF applies_applyCpuAndGpuVotes applies_updateUniversalBoostMode])
  with w2 have a: "STM_votes (mSessionTaskMap (updateUniversalBoostMode E
      (applyCpuAndGpuVotes E (ev_sessionId ev) ?now ?s2))) = STM_votes (mSessionTaskMap ?s2)"
    by (simp only: applies_def)
  have "STM_votes (mSessionTaskMap (handleEvent E ev s)) = STM_votes (mSessionTaskMap s)
      \<or> STM_votes (mSessionTaskMap (handleEvent E ev s)) = STM_votes (mSessionTaskMap ?s2)"
    using a by (auto simp: handleEvent_def Let_def case_prod_unfold s1 split: option.split simp del: updateUniversalBoostMode_map)
  then show ?thesis by (simp add: on_map_def s1 STM_votes_write_votes [OF wf])
qed

lemma votes_after_handleEvent:
  assumes wf: "STM_wf (mSessionTaskMap s)"
    and v: "STM_votes (mSessionTaskMap (handleEvent E ev s)) sess = Some vs'" "voteIsActive vs' i"
  shows "\<exists>vs. STM_votes (mSessionTaskMap s) sess = Some vs \<and> voteIsActive vs i \<and> voteTimeout vs i = voteTimeout vs' i"
  using handleEvent_votes [OF wf, of E ev] v
  by (auto simp: cpu_votes.active_disable cpu_votes.timeout_disable split: if_splits)

lemma PSM_fire_sessions:
  assumes inv: "psm_inv s"
  shows "dom (STM_votes (mSessionTaskMap (PSM_fire E s))) = dom (STM_votes (mSessionTaskMap s))"
proof -
  have wf: "STM_wf (mSessionTaskMap (s\<lparr>mEventSessionTimeoutWorker := w\<rparr>))" for w
    using inv by (simp add: psm_inv_def)
  have "dom (STM_votes (mSessionTaskMap (handleEvent E ev (s\<lparr>mEventSessionTimeoutWorker := w\<rparr>)))) =
      dom (STM_votes (mSessionTaskMap s))" for ev w
    using handleEvent_votes [OF wf, of E ev w] by (auto simp: domIff split: if_splits)
  then show ?thesis by (auto simp: PSM_fire_def split: prod.split option.split)
qed

lemma handleEvent_due:
  assumes "all_due E s"
  shows "mEventSessionTimeoutWorker (handleEvent E ev s) = mEventSessionTimeoutWorker s"
proof -
  have s1: "mSessionTaskMap (snd (steady_now E s)) = mSessionTaskMap s"
    "mEventSessionTimeoutWorker (snd (steady_now E s)) = mEventSessionTimeoutWorker s"
    "fst (steady_now E s) = clock_now E (effects s)"
    by (simp_all add: steady_now_def emit_def)
  have "applies s2 (updateUniversalBoostMode E (applyCpuAndGpuVotes E sess t s2))" for sess t s2
    by (rule applies_trans [OF applies_applyCpuAndGpuVotes applies_updateUniversalBoostMode])
  then have a: "mEventSessionTimeoutWorker (updateUniversalBoostMode E (applyCpuAndGpuVotes E sess t s2)) =
      mEventSessionTimeoutWorker s2" for sess t s2
    by (simp only: applies_def)
  have "voteTimeout (votesStore (mSessionTaskMap s) (votes (entryStore (mSessionTaskMap s) p))) i \<le> clock_now E h"
    if "STM_findSession sess (mSessionTaskMap s) = Some p"
      "voteIsActive (votesStore (mSessionTaskMap s) (votes (entryStore (mSessionTaskMap s) p))) i" for sess p i h
    using assms findSession_votes(1) [OF that(1)] that(2) unfolding all_due_def by blast
  then show ?thesis
    by (auto simp: handleEvent_def Let_def case_prod_unfold s1 a on_map_def split: option.split)
qed

lemma PSM_fire_due:
  assumes inv: "psm_inv s" and due: "all_due E s"
  shows "size (pending_timeouts (PSM_fire E s)) = size (pending_timeouts s) - 1" "all_due E (PSM_fire E s)"
proof -
  obtain w pl where wp: "mEventSessionTimeoutWorker s = (w, pl)" by fastforce
  have "size (pending_timeouts (PSM_fire E s)) = size (pending_timeouts s) - 1 \<and> all_due E (PSM_fire E s)"
  proof (cases "mPackageQueue pl = []")
    case True
    then have "PSM_fire E s = s"
      using Worker_fire_empty [OF True, of w] wp by (simp add: PSM_fire_def)
    with True wp due show ?thesis by (simp add: pending_timeouts_def worker_pending_def)
  next
    case False
    with inv wp have "worker_inv (w, pl)" by (simp add: psm_inv_def)
    then obtain d ev w' pl' where fire: "Worker_fire (w, pl) = (Some ev, w', pl')"
        "worker_pending w pl = add_mset (d, ev) (worker_pending w' pl')"
      by (rule Worker_fire_inv [OF _ False]) blast
    let ?s = "s\<lparr>mEventSessionTimeoutWorker := (w', pl')\<rparr>"
    have f: "PSM_fire E s = handleEvent E ev ?s" by (simp add: PSM_fire_def wp fire(1))
    have "all_due E ?s" using due by (simp add: all_due_def)
    note d = handleEvent_due [OF this, of ev]
    have wf: "STM_wf (mSessionTaskMap ?s)" using inv by (simp add: psm_inv_def)
    have "all_due E (handleEvent E ev ?s)"
      unfolding all_due_def
    proof (intro allI impI)
      fix sess vs i h
      assume "STM_votes (mSessionTaskMap (handleEvent E ev ?s)) sess = Some vs" "voteIsActive vs i"
      from votes_after_handleEvent [OF wf this] obtain vs0 where "voteTimeout vs0 i = voteTimeout vs i"
          "STM_votes (mSessionTaskMap s) sess = Some vs0" "voteIsActive vs0 i" by auto
      with due show "voteTimeout vs i \<le> clock_now E h" unfolding all_due_def by metis
    qed
    with d fire(2) wp show ?thesis by (simp add: f pending_timeouts_def)
  qed
  then show "size (pending_timeouts (PSM_fire E s)) = size (pending_timeouts s) - 1" "all_due E (PSM_fire E s)"
    by simp_all
qed

lemma PSM_fire_iterate:
  assumes "psm_inv s" and "all_due E s"
  shows "psm_inv ((PSM_fire E ^^ n) s)" "all_due E ((PSM_fire E ^^ n) s)"
    "size (pending_timeouts ((PSM_fire E ^^ n) s)) = size (pending_timeouts s) - n"
  using assms by (induction n) (simp_all add: psm_inv_PSM_fire PSM_fire_due)

section \<open>Properties\<close>


lemma add_reachable: "psm_reachable E (addPowerSession E idStr d ts (PSM_init E))"
  by (rule reach_step, rule reach_init, rule refl, rule psm_step.intros)

lemma sample_psm_reachable: "psm_reachable sample_env sample_psm"
  unfolding sample_psm_def by (rule add_reachable)



lemma all_dueI:
  assumes "list_all (\<lambda>(sess, ve).
      let vs = votesStore (mSessionTaskMap s) (votes (entryStore (mSessionTaskMap s) (val ve)))
      in list_all (\<lambda>(i, v). mActive v \<longrightarrow> mStartTime v + mDurationNs v \<le> d) (mCpuVotes vs)
        \<and> list_all (\<lambda>(i, v). mActive v \<longrightarrow> mStartTime v + mDurationNs v \<le> d) (mGpuVotes vs)) (mSessions (mSessionTaskMap s))"
    and "\<And>h. d \<le> clock_now E h"
  shows "all_due E s"
  unfolding all_due_def
proof (intro allI impI)
  fix sess vs i h
  assume "STM_votes (mSessionTaskMap s) sess = Some vs" and a: "voteIsActive vs i"
  then obtain ve where "(sess, ve) \<in> set (mSessions (mSessionTaskMap s))"
      "vs = votesStore (mSessionTaskMap s) (votes (entryStore (mSessionTaskMap s) (val ve)))"
    by (auto simp: STM_votes_def STM_abs_def dest: map_of_SomeD)
  with assms(1) have "list_all (\<lambda>(i, v). mActive v \<longrightarrow> mStartTime v + mDurationNs v \<le> d) (mCpuVotes vs)"
      "list_all (\<lambda>(i, v). mActive v \<longrightarrow> mStartTime v + mDurationNs v \<le> d) (mGpuVotes vs)"
    by (auto simp: list_all_iff Let_def)
  then have "voteTimeout vs i \<le> d"
    using a by (auto simp: voteTimeout_def voteIsActive_def list_all_iff split: option.splits if_splits dest!: map_of_SomeD)
  also have "d \<le> clock_now E h" by (rule assms(2))
  finally show "voteTimeout vs i \<le> clock_now E h" .
qed


text \<open>
  C34: Whatever clamps sessions vote for and whatever the configuration says, every
  \<open>sched_setattr\<close> the manager ever issues asks for a range within 0 and 1024 whose lower
  end is not above its upper end.
\<close>
theorem uclamp_requests_in_range:
  assumes "psm_reachable E s" and "SchedSetattr t lo hi \<in> set (effects s)"
  shows "0 \<le> lo \<and> lo \<le> hi \<and> hi \<le> 1024"
proof -
  have "psm_inv s" using assms(1) by (rule manager.reach_inv)
  then have "effect_ok (mGpuCapacityNode s) (SchedSetattr t lo hi)"
    using assms(2) by (auto simp: psm_inv_def list_all_iff)
  then show ?thesis by (simp add: uclamp_consts)
qed

theorem uclamp_requests_in_range_witness:
  "SchedSetattr 7 1024 1024 \<in> set (effects (voteSet_cpu sample_env 1 CPU_LOAD_UP 5000 1024 1000 500 sample_psm))
   \<and> (0::int) \<le> 1024 \<and> (1024::int) \<le> 1024"
proof -
  let ?s = "voteSet_cpu sample_env 1 CPU_LOAD_UP 5000 1024 1000 500 sample_psm"
  have r: "psm_reachable sample_env ?s"
    by (rule reach_step [OF sample_psm_reachable psm_step.intros(9)])
  have e: "SchedSetattr 7 1024 1024 \<in> set (effects ?s)" by code_simp
  with uclamp_requests_in_range [OF r e] show ?thesis by simp
qed



text \<open>
  C35: \<open>removePowerSession\<close> takes the session out of the map and out of the session list of
  every thread, leaves the value and the threads of every other session as they were, and
  drops the weak pointer registered under its id.
\<close>
theorem removePowerSession_gone:
  assumes "psm_reachable E s"
  shows "STM_abs (mSessionTaskMap (removePowerSession E sess s)) = (STM_abs (mSessionTaskMap s))(sess := None)
    \<and> sess \<notin> set (STM_getSessionIds t (mSessionTaskMap (removePowerSession E sess s)))
    \<and> fst (getSession alive sess (removePowerSession E sess s)) = None"
proof -
  let ?s1 = "forceSessionActive E sess False s"
  have "psm_inv s" using assms by (rule manager.reach_inv)
  then have wf: "STM_wf (mSessionTaskMap s)" by (simp add: psm_inv_def)
  then have wf1: "STM_wf (mSessionTaskMap ?s1)"
    using applies_forceSessionActive [of s E sess False] by (simp add: applies_def)
  have m: "mSessionTaskMap (removePowerSession E sess s) =
      snd (STM_remove sess (STM_replaced sess [] (mSessionTaskMap ?s1)))"
    by (simp add: removePowerSession_steps Let_def unregisterSession_def)
  have "STM_abs (mSessionTaskMap (removePowerSession E sess s)) = (STM_abs (mSessionTaskMap s))(sess := None)"
    unfolding m stm.unlink_then_remove(2) [OF wf1]
    using others_forceSessionActive [OF wf] by (simp add: fun_eq_iff)
  moreover have "sess \<notin> set (STM_getSessionIds t (mSessionTaskMap (removePowerSession E sess s)))"
    unfolding m by (rule stm.unlink_then_remove(3) [OF wf1])
  moreover have "fst (getSession alive sess (removePowerSession E sess s)) = None"
    by (simp add: removePowerSession_steps Let_def unregisterSession_def getSession_def umap_simps)
  ultimately show ?thesis by blast
qed

theorem removePowerSession_gone_witness:
  "STM_abs (mSessionTaskMap sample_psm) 1 \<noteq> None
   \<and> STM_abs (mSessionTaskMap (removePowerSession sample_env 1 sample_psm)) 1 = None"
proof -
  have "STM_abs (mSessionTaskMap sample_psm) 1 \<noteq> None" by code_simp
  with removePowerSession_gone [OF sample_psm_reachable, of 1] show ?thesis by simp
qed

text \<open>
  The GPU vote is written whenever the configuration has a value for \<open>mGpuBoostOn\<close>, also
  the value false; and when the node could not be opened, the pointer it is written through
  is null.
\<close>
theorem gpu_votes_ignore_flag:
  assumes "STM_findSession sess (mSessionTaskMap s) = Some p" and "mGpuCapacityNode s = Some node"
    and "mGpuBoostOn (adpf_profile E (effects s)) = Some b"
  shows "effects (applyGpuVotesLocked E sess t s) = effects s @
    [case node of None \<Rightarrow> NullDeref
     | Some _ \<Rightarrow> WriteGpuCapacity (STM_getSessionsGpuCapacity t (mSessionTaskMap s))]"
  using assms by (simp add: applyGpuVotesLocked_def GetAdpfProfile_def emit_def on_map_def split: option.split)

theorem gpu_votes_ignore_flag_witness:
  "mGpuBoostOn sample_config = Some False \<and>
   last (effects (applyGpuVotesLocked sample_env 1 1000 sample_psm)) = WriteGpuCapacity 0"
proof -
  obtain p where p: "STM_findSession 1 (mSessionTaskMap sample_psm) = Some p"
  proof (cases "STM_findSession 1 (mSessionTaskMap sample_psm)")
    case None
    moreover have "STM_findSession 1 (mSessionTaskMap sample_psm) \<noteq> None" by code_simp
    ultimately show ?thesis by simp
  qed blast
  obtain node where n: "mGpuCapacityNode sample_psm = Some (Some node)"
  proof (cases "mGpuCapacityNode sample_psm")
    case None
    moreover have "mGpuCapacityNode sample_psm \<noteq> None" by code_simp
    ultimately show ?thesis by simp
  next
    case (Some nd)
    moreover have "the (mGpuCapacityNode sample_psm) \<noteq> None" by code_simp
    ultimately show ?thesis using that by (cases nd) simp_all
  qed
  have b: "mGpuBoostOn (adpf_profile sample_env (effects sample_psm)) = Some False"
    by (simp add: sample_env_def sample_config_def)
  have c: "STM_getSessionsGpuCapacity 1000 (mSessionTaskMap sample_psm) = 0" by code_simp
  from gpu_votes_ignore_flag [OF p n b, of 1000] c show ?thesis by (simp add: sample_config_def)
qed

text \<open>
  Session objects are registered under the id narrowed to 32 bits. Looking up an id finds
  the object registered last under any id that agrees with it in the low 32 bits.
\<close>
theorem getSession_narrows_id:
  assumes "alive p" and "sess mod 2 ^ 32 = sess' mod 2 ^ 32"
  shows "fst (getSession alive sess' (registerSession p sess s)) = Some p"
proof -
  have "to_i32 sess = to_i32 sess'" using assms(2) by (rule to_signed_cong)
  with assms(1) show ?thesis by (simp add: getSession_def registerSession_def umap_simps)
qed

theorem getSession_narrows_id_witness:
  "fst (getSession (\<lambda>_. True) (1 + 2 ^ 32) (registerSession 5 1 sample_psm)) = Some 5"
  by (rule getSession_narrows_id) simp_all

end
