(* ===== verification/PidControl.thy ===== *)
theory PidControl
  imports AdpfEnv "HOL-Library.Monad_Syntax"
begin

text \<open>
  The controller of \<^verbatim>\<open>power-libperfmgr/aidl/PowerHintSession.cpp\<close>:
  \<open>convertWorkDurationToBoostByPid\<close> turns a batch of reported durations into a change of
  the lower clamp.

  Every \<open>int64_t\<close> operation that can overflow is checked (\<open>c64\<close>), the gains are doubles of
  \<open>FloatingPoint\<close>, and \<open>None\<close> is undefined behaviour or the abort of \<open>value()\<close> on an empty
  optional. The loop runs over the durations from the earliest window on, with the index it
  has in the code.
\<close>

section \<open>Definitions\<close>

definition c64 :: "int \<Rightarrow> int option" where
  "c64 x = (if in_signed 64 x then Some x else None)"

definition ns_to_100us :: "int \<Rightarrow> int" where
  "ns_to_100us ns = ns sdiv 100000"

definition window_start :: "int \<Rightarrow> int \<Rightarrow> int" where
  "window_start samplingWindow len =
     (if samplingWindow = 0 \<or> samplingWindow > len then 0 else len - samplingWindow)"

record pid_state =
  err_sum :: int
  derivative_sum :: int
  integral :: int
  previous :: int

record pid_windows =
  p_start :: int
  i_start :: int
  d_start :: int

definition pid_step ::
  "AdpfConfig \<Rightarrow> int \<Rightarrow> pid_windows \<Rightarrow> int \<Rightarrow> int \<Rightarrow> pid_state \<Rightarrow> pid_state option" where
  "pid_step cfg target w i actual s =
     do {
       _ \<leftarrow> c64 \<bar>actual\<bar>;
       _ \<leftarrow> c64 (target * 20);
       diff \<leftarrow> c64 (actual - target);
       let error = ns_to_100us diff;
       dsum \<leftarrow> (if i \<ge> d_start w then do { d \<leftarrow> c64 (error - previous s); c64 (derivative_sum s + d) }
                else Some (derivative_sum s));
       esum \<leftarrow> (if i \<ge> p_start w then c64 (err_sum s + error) else Some (err_sum s));
       ierr \<leftarrow> (if i \<ge> i_start w
                then do { x \<leftarrow> c64 (error * ns_to_100us target);
                          y \<leftarrow> c64 (integral s + x);
                          Some (max (getPidILowDivI cfg) (min (getPidIHighDivI cfg) y)) }
                else Some (integral s));
       Some \<lparr>err_sum = esum, derivative_sum = dsum, integral = ierr, previous = error\<rparr>
     }"

fun pid_loop ::
  "AdpfConfig \<Rightarrow> int \<Rightarrow> pid_windows \<Rightarrow> int \<Rightarrow> WorkDuration list \<Rightarrow> pid_state \<Rightarrow> pid_state option" where
  "pid_loop cfg target w i [] s = Some s"
| "pid_loop cfg target w i (d # ds) s =
     do { s' \<leftarrow> pid_step cfg target w i (durationNanos d) s; pid_loop cfg target w (i + 1) ds s' }"

definition pid_windows_of :: "AdpfConfig \<Rightarrow> int \<Rightarrow> pid_windows" where
  "pid_windows_of cfg len =
     \<lparr>p_start = window_start (mSamplingWindowP cfg) len, i_start = window_start (mSamplingWindowI cfg) len,
      d_start = window_start (mSamplingWindowD cfg) len\<rparr>"

definition loop_start :: "pid_windows \<Rightarrow> int" where
  "loop_start w = min (p_start w) (min (i_start w) (d_start w))"

text \<open>The gain below the target, raised while the heuristic boost is active.\<close>

definition pid_pu_active :: "AdpfConfig \<Rightarrow> bool \<Rightarrow> fp option" where
  "pid_pu_active cfg heuristicBoostActive =
     (if mHeuristicBoostOn cfg = Some True \<and> heuristicBoostActive
      then map_option (fp_mul f64 (mPidPu cfg)) (mHBoostPidPuFactor cfg)
      else Some (mPidPu cfg))"

text \<open>
  The three terms. The trace calls at the end divide by \<open>dt\<close> as an integer, which is
  undefined for 0.
\<close>

definition pid_terms ::
  "AdpfConfig \<Rightarrow> fp \<Rightarrow> int \<Rightarrow> int \<Rightarrow> pid_windows \<Rightarrow> pid_state \<Rightarrow> (int \<times> int \<times> int) option" where
  "pid_terms cfg pu dt len w s =
     do {
       pOut \<leftarrow> fp_to_int 64 (fp_div f64
                 (fp_mul f64 (if err_sum s > 0 then mPidPo cfg else pu) (fp_of_int f64 (err_sum s)))
                 (fp_of_int f64 (len - p_start w)));
       iOut \<leftarrow> fp_to_int 64 (fp_mul f64 (mPidI cfg) (fp_of_int f64 (integral s)));
       dOut \<leftarrow> fp_to_int 64 (fp_div f64 (fp_div f64
                 (fp_mul f64 (if derivative_sum s > 0 then mPidDo cfg else mPidDu cfg)
                    (fp_of_int f64 (derivative_sum s)))
                 (fp_of_int f64 dt)) (fp_of_int f64 (len - d_start w)));
       if dt = 0 then None else Some (pOut, iOut, dOut)
     }"

definition convertWorkDurationToBoostByPid ::
  "AdpfConfig \<Rightarrow> bool \<Rightarrow> AppHintDesc \<Rightarrow> WorkDuration list \<Rightarrow> (int \<times> AppHintDesc) option" where
  "convertWorkDurationToBoostByPid cfg heuristicBoostActive d actualDurations =
     (let target = targetNs d; len = int (length actualDurations);
          w = pid_windows_of cfg len
      in do {
           s \<leftarrow> pid_loop cfg target w (loop_start w) (drop (nat (loop_start w)) actualDurations)
                 \<lparr>err_sum = 0, derivative_sum = 0, integral = integral_error d, previous = previous_error d\<rparr>;
           pu \<leftarrow> pid_pu_active cfg heuristicBoostActive;
           (pOut, iOut, dOut) \<leftarrow> pid_terms cfg pu (ns_to_100us target) len w s;
           pi \<leftarrow> c64 (pOut + iOut);
           output \<leftarrow> c64 (pi + dOut);
           Some (output, d\<lparr>integral_error := integral s, previous_error := previous s\<rparr>)
         })"

subsection \<open>Specification\<close>

text \<open>The errors of the reported durations, in units of 100 microseconds.\<close>

definition errors :: "int \<Rightarrow> WorkDuration list \<Rightarrow> int list" where
  "errors target ds = map (\<lambda>d. ns_to_100us (durationNanos d - target)) ds"

text \<open>The integral: the errors times \<open>dt\<close>, added one by one and kept within its limits.\<close>

definition integrate :: "AdpfConfig \<Rightarrow> int \<Rightarrow> int list \<Rightarrow> int \<Rightarrow> int" where
  "integrate cfg dt es k =
     fold (\<lambda>e acc. max (getPidILowDivI cfg) (min (getPidIHighDivI cfg) (acc + e * dt))) es k"

text \<open>
  Inputs for which nothing overflows: a target from 100 microseconds to an hour, durations
  of at most a day, at most a million of them, and integral limits of at most \<open>2 ^ 61\<close>.
\<close>

definition pid_sane :: "AdpfConfig \<Rightarrow> AppHintDesc \<Rightarrow> WorkDuration list \<Rightarrow> bool" where
  "pid_sane cfg d ds \<longleftrightarrow>
     100000 \<le> targetNs d \<and> targetNs d \<le> 3600 * 10 ^ 9
     \<and> list_all (\<lambda>x. \<bar>durationNanos x\<bar> \<le> 86400 * 10 ^ 9) ds \<and> length ds \<le> 10 ^ 6
     \<and> 0 \<le> mSamplingWindowP cfg \<and> 0 \<le> mSamplingWindowI cfg \<and> 0 \<le> mSamplingWindowD cfg
     \<and> - (2 ^ 61) \<le> getPidILowDivI cfg \<and> getPidILowDivI cfg \<le> getPidIHighDivI cfg
     \<and> getPidIHighDivI cfg \<le> 2 ^ 61
     \<and> \<bar>integral_error d\<bar> \<le> 2 ^ 61 \<and> \<bar>previous_error d\<bar> \<le> 10 ^ 10"

text \<open>The bounds under which one step is defined, with the number of steps still to come.\<close>

definition step_ok :: "AdpfConfig \<Rightarrow> int \<Rightarrow> nat \<Rightarrow> pid_state \<Rightarrow> bool" where
  "step_ok cfg target n s \<longleftrightarrow>
     100000 \<le> target \<and> target \<le> 3600 * 10 ^ 9
     \<and> - (2 ^ 61) \<le> getPidILowDivI cfg \<and> getPidILowDivI cfg \<le> getPidIHighDivI cfg \<and> getPidIHighDivI cfg \<le> 2 ^ 61
     \<and> \<bar>err_sum s\<bar> + 10 ^ 9 * int n \<le> 2 ^ 62 \<and> \<bar>derivative_sum s\<bar> + 2 * 10 ^ 10 * int n \<le> 2 ^ 62
     \<and> \<bar>integral s\<bar> \<le> 2 ^ 61 \<and> \<bar>previous s\<bar> \<le> 10 ^ 10"

definition pid_next :: "AdpfConfig \<Rightarrow> int \<Rightarrow> pid_windows \<Rightarrow> int \<Rightarrow> int \<Rightarrow> pid_state \<Rightarrow> pid_state" where
  "pid_next cfg target w i e s =
     \<lparr>err_sum = err_sum s + (if p_start w \<le> i then e else 0),
      derivative_sum = derivative_sum s + (if d_start w \<le> i then e - previous s else 0),
      integral = (if i_start w \<le> i then integrate cfg (ns_to_100us target) [e] (integral s) else integral s),
      previous = e\<rparr>"

text \<open>What the loop adds up, over the durations from index \<open>i\<close> on.\<close>

definition pid_after :: "AdpfConfig \<Rightarrow> int \<Rightarrow> pid_windows \<Rightarrow> int \<Rightarrow> int list \<Rightarrow> pid_state \<Rightarrow> pid_state" where
  "pid_after cfg target w i es s =
     \<lparr>err_sum = err_sum s + sum_list (drop (nat (p_start w - i)) es),
      derivative_sum = derivative_sum s +
        (if nat (d_start w - i) < length es
         then last es - (if d_start w \<le> i then previous s else es ! (nat (d_start w - i) - 1)) else 0),
      integral = integrate cfg (ns_to_100us target) (drop (nat (i_start w - i)) es) (integral s),
      previous = last (previous s # es)\<rparr>"

text \<open>
  What the loop computes, without the loop. The derivative telescopes to the last error
  minus the one before the window, which is the stored one if the loop starts at the window.
\<close>

definition pid_reference :: "AdpfConfig \<Rightarrow> AppHintDesc \<Rightarrow> WorkDuration list \<Rightarrow> pid_state" where
  "pid_reference cfg d ds =
     (let w = pid_windows_of cfg (int (length ds)); es = errors (targetNs d) ds
      in \<lparr>err_sum = sum_list (drop (nat (p_start w)) es),
          derivative_sum = last es - (if loop_start w < d_start w then es ! nat (d_start w - 1) else previous_error d),
          integral = integrate cfg (ns_to_100us (targetNs d)) (drop (nat (i_start w)) es) (integral_error d),
          previous = last es\<rparr>)"

definition gains_nonneg :: "AdpfConfig \<Rightarrow> bool" where
  "gains_nonneg cfg \<longleftrightarrow>
     fp_nonneg (mPidPo cfg) \<and> fp_nonneg (mPidPu cfg) \<and> fp_nonneg (mPidI cfg) \<and> fp_nonneg (mPidDo cfg)
     \<and> fp_nonneg (mPidDu cfg) \<and> pred_option fp_nonneg (mHBoostPidPuFactor cfg)"

section \<open>The loop\<close>

lemma c64_Some: "\<bar>x\<bar> < 2 ^ 63 \<Longrightarrow> c64 x = Some x"
  by (auto simp: c64_def in_signed_def)

lemma ns_to_100us_bound: "\<bar>x\<bar> \<le> k * 100000 \<Longrightarrow> \<bar>ns_to_100us x\<bar> \<le> k"
  by (auto simp: ns_to_100us_def signed_divide_int_def sgn_if abs_if)

lemma window_start_range: "0 \<le> w \<Longrightarrow> 0 \<le> n \<Longrightarrow> 0 \<le> window_start w n \<and> window_start w n \<le> n"
  by (auto simp: window_start_def)

lemma window_start_less: "0 \<le> w \<Longrightarrow> 0 < n \<Longrightarrow> window_start w n < n"
  by (auto simp: window_start_def)

lemma pid_step_next:
  assumes ok: "step_ok cfg target (Suc n) s" and a: "\<bar>actual\<bar> \<le> 86400 * 10 ^ 9"
  defines "e \<equiv> ns_to_100us (actual - target)"
  shows "pid_step cfg target w i actual s = Some (pid_next cfg target w i e s)"
    "step_ok cfg target n (pid_next cfg target w i e s)" "\<bar>e\<bar> \<le> 10 ^ 9"
proof -
  have t: "100000 \<le> target" "target \<le> 3600 * 10 ^ 9" using ok by (simp_all add: step_ok_def)
  show e: "\<bar>e\<bar> \<le> 10 ^ 9" unfolding e_def by (rule ns_to_100us_bound) (use t a in auto)
  have dt: "\<bar>ns_to_100us target\<bar> \<le> 36 * 10 ^ 6" by (rule ns_to_100us_bound) (use t in auto)
  have ed: "\<bar>e * ns_to_100us target\<bar> \<le> 10 ^ 9 * (36 * 10 ^ 6)"
    unfolding abs_mult by (rule mult_mono) (use e dt in auto)
  have b: "\<bar>err_sum s\<bar> + 10 ^ 9 * int (Suc n) \<le> 2 ^ 62" "\<bar>derivative_sum s\<bar> + 2 * 10 ^ 10 * int (Suc n) \<le> 2 ^ 62"
    "\<bar>integral s\<bar> \<le> 2 ^ 61" "\<bar>previous s\<bar> \<le> 10 ^ 10"
    using ok by (simp_all add: step_ok_def)
  have t20: "\<bar>target * 20\<bar> < 2 ^ 63" "\<bar>actual\<bar> < 2 ^ 63" "\<bar>actual - target\<bar> < 2 ^ 63" using t a by simp_all
  have s1: "\<bar>e - previous s\<bar> \<le> 2 * 10 ^ 10" using e b(4) by simp
  have s2: "\<bar>derivative_sum s + (e - previous s)\<bar> + 2 * 10 ^ 10 * int n \<le> 2 ^ 62" using s1 b(2) by simp
  have s3: "\<bar>err_sum s + e\<bar> + 10 ^ 9 * int n \<le> 2 ^ 62" using e b(1) by simp
  have s4: "\<bar>integral s + e * ns_to_100us target\<bar> < 2 ^ 63" using ed b(3) by simp
  have lt: "\<bar>e - previous s\<bar> < 2 ^ 63" "\<bar>derivative_sum s + (e - previous s)\<bar> < 2 ^ 63"
    "\<bar>err_sum s + e\<bar> < 2 ^ 63" "\<bar>e * ns_to_100us target\<bar> < 2 ^ 63"
    using s1 s2 s3 ed by simp_all
  note c = c64_Some [OF t20(1)] c64_Some [OF t20(3)] c64_Some [OF lt(1)] c64_Some [OF lt(2)]
    c64_Some [OF lt(3)] c64_Some [OF lt(4)] c64_Some [OF s4]
  have c0: "c64 \<bar>actual\<bar> = Some \<bar>actual\<bar>" using t20(2) by (intro c64_Some) simp
  show "pid_step cfg target w i actual s = Some (pid_next cfg target w i e s)"
    unfolding pid_step_def by (simp add: c c0 e_def [symmetric] pid_next_def integrate_def)
  have s5: "\<bar>max (getPidILowDivI cfg) (min (getPidIHighDivI cfg) y)\<bar> \<le> 2 ^ 61" for y
    using ok by (simp add: step_ok_def abs_le_iff) linarith
  show "step_ok cfg target n (pid_next cfg target w i e s)"
    using ok e b(1,2) s2 s3 s5 by (simp add: step_ok_def pid_next_def integrate_def)
qed

lemma drop_nat_Cons:
  "drop (nat (k - i)) (x # xs) = (if k \<le> i then x # xs else drop (nat (k - (i + 1))) xs)"
proof (cases "k \<le> i")
  case False
  then have "nat (k - i) = Suc (nat (k - (i + 1)))" by linarith
  with False show ?thesis by simp
qed simp

lemma pid_after_Cons:
  "pid_after cfg target w i (e # es) s = pid_after cfg target w (i + 1) es (pid_next cfg target w i e s)"
proof (rule pid_state.equality)
  have n: "nat (d_start w - i) = Suc (nat (d_start w - (i + 1)))" if "i < d_start w"
    using that by linarith
  show "derivative_sum (pid_after cfg target w i (e # es) s) =
      derivative_sum (pid_after cfg target w (i + 1) es (pid_next cfg target w i e s))"
  proof (cases "d_start w \<le> i")
    case True
    then show ?thesis by (cases es) (simp_all add: pid_after_def pid_next_def)
  next
    case False
    then show ?thesis using n by (auto simp: pid_after_def pid_next_def nth_Cons')
  qed
qed (simp_all add: pid_after_def pid_next_def drop_nat_Cons integrate_def)

lemma pid_loop_after:
  assumes "step_ok cfg target (length ds) s" and "list_all (\<lambda>x. \<bar>durationNanos x\<bar> \<le> 86400 * 10 ^ 9) ds"
  shows "pid_loop cfg target w i ds s = Some (pid_after cfg target w i (errors target ds) s)
    \<and> step_ok cfg target 0 (pid_after cfg target w i (errors target ds) s)"
  using assms
proof (induction ds arbitrary: i s)
  case Nil
  then show ?case by (simp add: errors_def pid_after_def integrate_def step_ok_def)
next
  case (Cons d ds)
  let ?e = "ns_to_100us (durationNanos d - target)"
  have a: "\<bar>durationNanos d\<bar> \<le> 86400 * 10 ^ 9" and ds: "list_all (\<lambda>x. \<bar>durationNanos x\<bar> \<le> 86400 * 10 ^ 9) ds"
    using Cons.prems(2) by simp_all
  note n = pid_step_next [OF Cons.prems(1) [unfolded length_Cons] a]
  show ?case
    using Cons.IH [OF n(2) [of w i] ds, of "i + 1"] n(1) [of w i]
    by (simp add: errors_def pid_after_Cons)
qed

lemma integrate_range:
  assumes "getPidILowDivI cfg \<le> getPidIHighDivI cfg" and "es \<noteq> []"
  shows "getPidILowDivI cfg \<le> integrate cfg dt es k \<and> integrate cfg dt es k \<le> getPidIHighDivI cfg"
  using assms(2)
proof (induction es arbitrary: k)
  case (Cons e es)
  then show ?case using assms(1) by (cases "es = []") (auto simp: integrate_def)
qed simp

lemma integrate_nonneg:
  assumes "0 \<le> getPidIHighDivI cfg" "0 \<le> dt" "0 \<le> k" "list_all (\<lambda>e. 0 \<le> e) es"
  shows "0 \<le> integrate cfg dt es k"
  using assms(3,4)
proof (induction es arbitrary: k)
  case (Cons e es)
  have "0 \<le> max (getPidILowDivI cfg) (min (getPidIHighDivI cfg) (k + e * dt))"
    using Cons.prems assms(1,2) by (simp add: le_max_iff_disj)
  from Cons.IH [OF this] Cons.prems show ?case by (simp add: integrate_def)
qed (simp add: integrate_def)

lemma pid_loop_reference:
  assumes sane: "pid_sane cfg d ds" and ne: "ds \<noteq> []"
  shows "pid_loop cfg (targetNs d) (pid_windows_of cfg (int (length ds)))
      (loop_start (pid_windows_of cfg (int (length ds))))
      (drop (nat (loop_start (pid_windows_of cfg (int (length ds))))) ds)
      \<lparr>err_sum = 0, derivative_sum = 0, integral = integral_error d, previous = previous_error d\<rparr> =
    Some (pid_reference cfg d ds)"
proof -
  let ?w = "pid_windows_of cfg (int (length ds))" and ?es = "errors (targetNs d) ds"
  let ?k = "loop_start ?w"
  let ?s = "\<lparr>err_sum = 0, derivative_sum = 0, integral = integral_error d, previous = previous_error d\<rparr>"
  have len: "int (length ds) \<le> 10 ^ 6" "0 < int (length ds)" using sane ne by (simp_all add: pid_sane_def)
  have r: "0 \<le> p_start ?w" "0 \<le> i_start ?w" "0 \<le> d_start ?w" "d_start ?w < int (length ds)"
    using sane len window_start_range [of _ "int (length ds)"] window_start_less [of _ "int (length ds)"]
    by (simp_all add: pid_windows_of_def pid_sane_def)
  then have k: "0 \<le> ?k" "?k \<le> p_start ?w" "?k \<le> i_start ?w" "?k \<le> d_start ?w" "?k < int (length ds)"
    by (simp_all add: loop_start_def)
  have "int (length (drop (nat ?k) ds)) \<le> 10 ^ 6" using len by simp
  then have "step_ok cfg (targetNs d) (length (drop (nat ?k) ds)) ?s"
    using sane by (simp add: step_ok_def pid_sane_def del: length_drop)
  moreover have "list_all (\<lambda>x. \<bar>durationNanos x\<bar> \<le> 86400 * 10 ^ 9) (drop (nat ?k) ds)"
    using sane by (auto simp: pid_sane_def list_all_iff dest: in_set_dropD)
  ultimately have "pid_loop cfg (targetNs d) ?w ?k (drop (nat ?k) ds) ?s =
      Some (pid_after cfg (targetNs d) ?w ?k (errors (targetNs d) (drop (nat ?k) ds)) ?s)"
    using pid_loop_after by blast
  also have "errors (targetNs d) (drop (nat ?k) ds) = drop (nat ?k) ?es" by (simp add: errors_def drop_map)
  also have "pid_after cfg (targetNs d) ?w ?k (drop (nat ?k) ?es) ?s = pid_reference cfg d ds"
  proof -
    have l: "length ?es = length ds" by (simp add: errors_def)
    have dr: "drop (nat (x - ?k)) (drop (nat ?k) ?es) = drop (nat x) ?es" if "?k \<le> x" for x
      using that k(1) by (simp add: drop_drop nat_diff_distrib)
    have la: "last (drop (nat ?k) ?es) = last ?es" "drop (nat ?k) ?es \<noteq> []" using k l by simp_all
    have nth: "drop (nat ?k) ?es ! (nat (d_start ?w - ?k) - 1) = ?es ! nat (d_start ?w - 1)" if "?k < d_start ?w"
    proof -
      have "nat ?k + (nat (d_start ?w - ?k) - 1) = nat (d_start ?w - 1)" using that k(1) by linarith
      with k l show ?thesis by simp
    qed
    have lt: "nat (d_start ?w - ?k) < length (drop (nat ?k) ?es)" using k r l by simp
    show ?thesis
      using k nth lt la
      by (simp add: pid_after_def pid_reference_def Let_def dr [OF k(2)] dr [OF k(3)] del: drop_drop length_drop)
  qed
  finally show ?thesis .
qed

lemma convert_reference:
  assumes "pid_sane cfg d ds" and "ds \<noteq> []"
  shows "convertWorkDurationToBoostByPid cfg active d ds =
      do { pu \<leftarrow> pid_pu_active cfg active;
           (pOut, iOut, dOut) \<leftarrow> pid_terms cfg pu (ns_to_100us (targetNs d)) (int (length ds))
             (pid_windows_of cfg (int (length ds))) (pid_reference cfg d ds);
           pi \<leftarrow> c64 (pOut + iOut);
           output \<leftarrow> c64 (pi + dOut);
           Some (output, d\<lparr>integral_error := integral (pid_reference cfg d ds),
             previous_error := previous (pid_reference cfg d ds)\<rparr>) }"
  unfolding convertWorkDurationToBoostByPid_def Let_def pid_loop_reference [OF assms] by simp

section \<open>Properties\<close>

text \<open>
  C15: On inputs within \<open>pid_sane\<close> the loop over the batch is defined and computes what its
  three windows mean: the sum of the errors in the proportional window, the last error minus
  the one before the derivative window, and the integral of the errors in its window, kept
  between its two limits. The call keeps the integral and the last error for the next batch.
\<close>
theorem pid_windows_meaning:
  assumes "pid_sane cfg d ds" and "ds \<noteq> []"
  shows "convertWorkDurationToBoostByPid cfg active d ds =
      do { pu \<leftarrow> pid_pu_active cfg active;
           (pOut, iOut, dOut) \<leftarrow> pid_terms cfg pu (ns_to_100us (targetNs d)) (int (length ds))
             (pid_windows_of cfg (int (length ds))) (pid_reference cfg d ds);
           pi \<leftarrow> c64 (pOut + iOut);
           output \<leftarrow> c64 (pi + dOut);
           Some (output, d\<lparr>integral_error := integral (pid_reference cfg d ds),
             previous_error := previous (pid_reference cfg d ds)\<rparr>) }
    \<and> getPidILowDivI cfg \<le> integral (pid_reference cfg d ds)
    \<and> integral (pid_reference cfg d ds) \<le> getPidIHighDivI cfg"
proof -
  let ?w = "pid_windows_of cfg (int (length ds))"
  have "0 \<le> i_start ?w" "i_start ?w < int (length ds)"
    using assms window_start_range [of _ "int (length ds)"] window_start_less [of _ "int (length ds)"]
    by (simp_all add: pid_windows_of_def pid_sane_def)
  then have "drop (nat (i_start ?w)) (errors (targetNs d) ds) \<noteq> []" by (simp add: errors_def)
  then have "getPidILowDivI cfg \<le> integral (pid_reference cfg d ds)
    \<and> integral (pid_reference cfg d ds) \<le> getPidIHighDivI cfg"
    unfolding pid_reference_def Let_def pid_state.simps
    by (intro integrate_range) (use assms(1) in \<open>simp_all add: pid_sane_def\<close>)
  then show ?thesis using convert_reference [OF assms] by simp
qed

lemma sample_sane: "pid_sane sample_config (sample_desc\<lparr>targetNs := 1000000\<rparr>) [work 0 1500000, work 0 3000000]"
  by (simp add: pid_sane_def sample_config_def sample_desc_def mkAppHintDesc_def work_def)

lemma sample_reference:
  "pid_reference sample_config (sample_desc\<lparr>targetNs := 1000000\<rparr>) [work 0 1500000, work 0 3000000] =
    \<lparr>err_sum = 20, derivative_sum = 15, integral = 0, previous = 20\<rparr>"
  by (simp add: pid_reference_def sample_config_def sample_desc_def mkAppHintDesc_def work_def errors_def
      pid_windows_of_def window_start_def loop_start_def integrate_def ns_to_100us_def signed_divide_int_def)

lemma sample_terms:
  "pid_terms sample_config (Fin 1) 10 2 (pid_windows_of sample_config 2)
    \<lparr>err_sum = 20, derivative_sum = 15, integral = 0, previous = 20\<rparr> = Some (40, 0, 750)"
proof -
  have r: "fp_round f64 (of_int n) = Fin (of_int n)" if "\<bar>n\<bar> < 2 ^ 53" for n
    using that by (rule f64_round_of_int)
  note rs = r [of 40, simplified] r [of 7500, simplified] r [of 750, simplified] r [of 0, simplified]
    r [of 20, simplified] r [of 15, simplified] r [of 10, simplified] r [of 1, simplified] r [of 2, simplified]
  show ?thesis
    by (simp add: pid_terms_def sample_config_def pid_windows_of_def window_start_def fp_of_int_def rs
        in_signed_def)
qed

lemma sample_pu: "pid_pu_active sample_config False = Some (Fin 1)" "ns_to_100us 1000000 = 10"
  by (simp_all add: pid_pu_active_def sample_config_def ns_to_100us_def signed_divide_int_def)

theorem pid_windows_meaning_witness:
  "convertWorkDurationToBoostByPid sample_config False (sample_desc\<lparr>targetNs := 1000000\<rparr>)
     [work 0 1500000, work 0 3000000] =
   Some (790, sample_desc\<lparr>targetNs := 1000000, integral_error := 0, previous_error := 20\<rparr>)"
  using pid_windows_meaning [OF sample_sane, of False] sample_terms
  by (simp add: sample_reference sample_pu c64_def in_signed_def)

text \<open>
  C36: Late frames never lower the boost: with gains that are not negative, if every reported
  duration is at least the target, the stored integral is not negative and the last error is
  no smaller than the one before the derivative window, the output is not negative.
\<close>
theorem pid_late_not_lowered:
  assumes "pid_sane cfg d ds" and "ds \<noteq> []" and "gains_nonneg cfg"
    and "list_all (\<lambda>x. targetNs d \<le> durationNanos x) ds"
    and "0 \<le> integral_error d" and "0 \<le> getPidIHighDivI cfg"
    and "0 \<le> derivative_sum (pid_reference cfg d ds)"
    and out: "convertWorkDurationToBoostByPid cfg active d ds = Some (output, d')"
  shows "0 \<le> output"
proof -
  let ?w = "pid_windows_of cfg (int (length ds))" and ?r = "pid_reference cfg d ds"
  obtain pu pOut iOut dOut where pu: "pid_pu_active cfg active = Some pu"
    and t: "pid_terms cfg pu (ns_to_100us (targetNs d)) (int (length ds)) ?w ?r = Some (pOut, iOut, dOut)"
    and o: "output = pOut + iOut + dOut"
    using out unfolding convertWorkDurationToBoostByPid_def Let_def pid_loop_reference [OF assms(1,2)]
    by (auto simp: c64_def bind_eq_Some_conv split: if_splits)
  have es: "list_all (\<lambda>e. 0 \<le> e) (errors (targetNs d) ds)"
    using assms(4) by (auto simp: errors_def list_all_iff ns_to_100us_def signed_divide_int_def sgn_if)
  then have e: "0 \<le> err_sum ?r"
    unfolding pid_reference_def Let_def pid_state.simps
    by (intro sum_list_nonneg) (auto simp: list_all_iff dest: in_set_dropD)
  have dt: "0 \<le> ns_to_100us (targetNs d)"
    using assms(1) by (simp add: pid_sane_def ns_to_100us_def signed_divide_int_def pos_imp_zdiv_nonneg_iff)
  have i: "0 \<le> integral ?r"
    unfolding pid_reference_def Let_def pid_state.simps
    by (intro integrate_nonneg assms dt) (use es in \<open>auto simp: list_all_iff dest: in_set_dropD\<close>)
  have g: "fp_nonneg pu" "fp_nonneg (mPidPo cfg)" "fp_nonneg (mPidI cfg)" "fp_nonneg (mPidDo cfg)" "fp_nonneg (mPidDu cfg)"
    using assms(3) pu by (auto simp: gains_nonneg_def pid_pu_active_def fp_nonneg_mul split: if_splits)
  have w: "0 \<le> int (length ds) - p_start ?w" "0 \<le> int (length ds) - d_start ?w"
    using assms(1) window_start_range [of _ "int (length ds)"] by (simp_all add: pid_windows_of_def pid_sane_def)
  from t have eqs:
    "fp_to_int 64 (fp_div f64 (fp_mul f64 (if err_sum ?r > 0 then mPidPo cfg else pu) (fp_of_int f64 (err_sum ?r)))
       (fp_of_int f64 (int (length ds) - p_start ?w))) = Some pOut"
    "fp_to_int 64 (fp_mul f64 (mPidI cfg) (fp_of_int f64 (integral ?r))) = Some iOut"
    "fp_to_int 64 (fp_div f64 (fp_div f64 (fp_mul f64 (if derivative_sum ?r > 0 then mPidDo cfg else mPidDu cfg)
       (fp_of_int f64 (derivative_sum ?r))) (fp_of_int f64 (ns_to_100us (targetNs d))))
       (fp_of_int f64 (int (length ds) - d_start ?w))) = Some dOut"
    by (auto simp: pid_terms_def bind_eq_Some_conv split: if_splits)
  have "0 \<le> pOut" by (rule fp_nonneg_to_int [OF _ eqs(1)]) (use g e w in \<open>simp add: fp_nonneg_intros\<close>)
  moreover have "0 \<le> iOut" by (rule fp_nonneg_to_int [OF _ eqs(2)]) (use g i in \<open>simp add: fp_nonneg_intros\<close>)
  moreover have "0 \<le> dOut"
    by (rule fp_nonneg_to_int [OF _ eqs(3)]) (use g w dt assms(7) in \<open>simp add: fp_nonneg_intros\<close>)
  ultimately show ?thesis by (simp add: o)
qed

theorem pid_late_not_lowered_witness:
  "\<exists>output d'. convertWorkDurationToBoostByPid sample_config False (sample_desc\<lparr>targetNs := 1000000\<rparr>)
     [work 0 1500000, work 0 3000000] = Some (output, d') \<and> 0 \<le> output"
proof -
  let ?d = "sample_desc\<lparr>targetNs := 1000000\<rparr>" and ?ds = "[work 0 1500000, work 0 3000000]"
  obtain out d' where o: "convertWorkDurationToBoostByPid sample_config False ?d ?ds = Some (out, d')"
    using convert_reference [OF sample_sane, of False] sample_terms
    by (simp add: sample_reference sample_pu c64_def in_signed_def)
  have "gains_nonneg sample_config" by (simp add: gains_nonneg_def sample_config_def)
  moreover have "list_all (\<lambda>x. targetNs ?d \<le> durationNanos x) ?ds" by (simp add: work_def)
  moreover have "0 \<le> integral_error ?d" "0 \<le> getPidIHighDivI sample_config"
    by (simp_all add: sample_desc_def mkAppHintDesc_def sample_config_def)
  ultimately have "0 \<le> out"
    using pid_late_not_lowered [OF sample_sane _ _ _ _ _ _ o] by (simp add: sample_reference)
  with o show ?thesis by blast
qed

text \<open>
  A target below 100 microseconds makes the controller undefined whatever is reported:
  \<open>dt\<close> is 0 and the code divides by it.
\<close>
theorem pid_short_target_undefined:
  assumes "\<bar>targetNs d\<bar> < 100000"
  shows "convertWorkDurationToBoostByPid cfg active d ds = None"
proof -
  have "ns_to_100us (targetNs d) = 0"
    using assms by (auto simp: ns_to_100us_def signed_divide_int_def sgn_if)
  then have "pid_terms cfg pu (ns_to_100us (targetNs d)) len w s = None" for pu len w s
    by (auto simp: pid_terms_def bind_eq_None_conv split: Option.bind_splits)
  then show ?thesis by (simp add: convertWorkDurationToBoostByPid_def Let_def split: Option.bind_splits)
qed

theorem pid_short_target_undefined_witness:
  "convertWorkDurationToBoostByPid sample_config False sample_desc [work 0 1500000] = None"
  by (rule pid_short_target_undefined) (simp add: sample_desc_def mkAppHintDesc_def)

end
