(* ===== verification/Outcome.thy ===== *)
theory Outcome
  imports Prelude
begin

text \<open>
  What a method of a binder service gives: a status, and the ways a call can fail to return,
  which C++ leaves to the machine: undefined behaviour, the abort of \<open>value()\<close> on an empty
  optional, and a thread that waits for a lock it holds itself.
\<close>

section \<open>Definitions\<close>

datatype status = STATUS_OK | EX_ILLEGAL_STATE | EX_ILLEGAL_ARGUMENT | EX_NULL_POINTER | EX_UNSUPPORTED_OPERATION

datatype 'a outcome = Ret 'a | Undefined | Abort | Deadlock

fun obind :: "'a outcome \<Rightarrow> ('a \<Rightarrow> 'b outcome) \<Rightarrow> 'b outcome" where
  "obind (Ret x) f = f x"
| "obind Undefined f = Undefined"
| "obind Abort f = Abort"
| "obind Deadlock f = Deadlock"

definition defined_or :: "'a outcome \<Rightarrow> 'a option \<Rightarrow> 'a outcome" where
  "defined_or e x = (case x of None \<Rightarrow> e | Some v \<Rightarrow> Ret v)"

abbreviation arith :: "'a option \<Rightarrow> 'a outcome" where
  "arith \<equiv> defined_or Undefined"

abbreviation opt_value :: "'a option \<Rightarrow> 'a outcome" where
  "opt_value \<equiv> defined_or Abort"

section \<open>Outcomes\<close>

lemma obind_Ret [simp]: "obind x f = Ret y \<longleftrightarrow> (\<exists>a. x = Ret a \<and> f a = Ret y)"
  by (cases x) auto

lemma obind_Deadlock [simp]: "obind x f = Deadlock \<longleftrightarrow> x = Deadlock \<or> (\<exists>a. x = Ret a \<and> f a = Deadlock)"
  by (cases x) auto

lemma defined_or_simps [simp]:
  "arith x = Ret v \<longleftrightarrow> x = Some v" "opt_value x = Ret v \<longleftrightarrow> x = Some v"
  "arith x \<noteq> Deadlock" "opt_value x \<noteq> Deadlock"
  by (auto simp: defined_or_def split: option.splits)

end
