(* ===== verification/PowerHintSession.thy ===== *)
theory PowerHintSession
  imports PowerSessionManager PidControl Outcome
begin

text \<open>
  \<^verbatim>\<open>power-libperfmgr/aidl/PowerHintSession.{h,cpp}\<close>: the object behind one hint session, and
  \<open>AppDescriptorTrace.h\<close>, the names of its trace counters.

  A method is a function on the session \<open>PHS\<close> and the manager \<open>PSM\<close> it calls. It either
  returns (\<open>Ret\<close>) or ends in one of three ways C++ leaves to the machine: undefined
  behaviour, the abort of \<open>value()\<close> on an empty optional, and a thread that waits for a lock
  it holds itself. \<open>locked\<close> is the state of \<open>mPowerHintSessionLock\<close>: the methods are called
  one after the other, so it is only ever found taken by the thread that took it. Integers
  of the configuration are \<open>uint32_t\<close> and narrowed where the code passes them as \<open>int\<close>.
\<close>

section \<open>Definitions\<close>

subsection \<open>State\<close>

record PHS =
  mSessionId :: sid
  mIdString :: string
  mDescriptor :: AppHintDesc
  mLastUpdatedTime :: time
  mSessionClosed :: bool
  mSupportedHints :: "(string, bool option) umap"
  mModes :: "SessionMode \<Rightarrow> bool"
  mTag :: int
  mSessionRecords :: "SessionRecords option"
  mHeuristicBoostActive :: bool
  locked :: bool

definition on_desc :: "(AppHintDesc \<Rightarrow> AppHintDesc) \<Rightarrow> PHS \<Rightarrow> PHS" where
  "on_desc f s = s\<lparr>mDescriptor := f (mDescriptor s)\<rparr>"

text \<open>\<open>std::scoped_lock\<close> around the body of a method.\<close>

definition with_lock ::
  "(PHS \<times> PSM \<Rightarrow> ('a \<times> PHS \<times> PSM) outcome) \<Rightarrow> PHS \<times> PSM \<Rightarrow> ('a \<times> PHS \<times> PSM) outcome" where
  "with_lock body = (\<lambda>(s, m).
     if locked s then Deadlock
     else obind (body (s\<lparr>locked := True\<rparr>, m)) (\<lambda>(r, s', m'). Ret (r, s'\<lparr>locked := False\<rparr>, m')))"

subsection \<open>Durations\<close>

text \<open>\<open>targetNs * mStaleTimeFactor\<close> as nanoseconds, and half of it.\<close>

definition stale_ns :: "AdpfConfig \<Rightarrow> int \<Rightarrow> int option" where
  "stale_ns cfg target = fp_to_int 64 (fp_mul f64 (fp_of_int f64 target) (mStaleTimeFactor cfg))"

definition half_stale_ns :: "AdpfConfig \<Rightarrow> int \<Rightarrow> int option" where
  "half_stale_ns cfg target =
     fp_to_int 64 (fp_div f64 (fp_mul f64 (fp_of_int f64 target) (mStaleTimeFactor cfg)) (Fin 2))"

subsection \<open>Parts of the methods\<close>

definition heuristic_on :: "AdpfConfig \<Rightarrow> bool" where
  "heuristic_on cfg \<longleftrightarrow> mHeuristicBoostOn cfg = Some True"

definition PHS_isAppSession :: "env \<Rightarrow> PHS \<Rightarrow> bool" where
  "PHS_isAppSession E s \<longleftrightarrow> desc_uid (mDescriptor s) \<ge> app_start_uid E"

definition updatePidControlVariable ::
  "env \<Rightarrow> int \<Rightarrow> bool \<Rightarrow> PHS \<times> PSM \<Rightarrow> (PHS \<times> PSM) outcome" where
  "updatePidControlVariable E v updateVote = (\<lambda>(s, m).
     let s1 = on_desc (pidControlVariable_update (\<lambda>_. v)) s in
     if updateVote then
       let cfg = GetAdpfProfile E m; (now, m1) = steady_now E m in
       obind (arith (stale_ns cfg (targetNs (mDescriptor s1)))) (\<lambda>stale.
       obind (arith (c64 (mReportingRateLimitNs cfg * 2))) (\<lambda>lim.
         Ret (s1, voteSet_cpu E (mSessionId s1) CPU_VOTE_DEFAULT v kUclampMax now (max stale lim) m1)))
     else Ret (s1, m))"

definition tryToSendPowerHint :: "env \<Rightarrow> string \<Rightarrow> PHS \<times> PSM \<Rightarrow> PHS \<times> PSM" where
  "tryToSendPowerHint E hint = (\<lambda>(s, m).
     let known = (case umap_find (mSupportedHints s) hint of None \<Rightarrow> None | Some k \<Rightarrow> k);
         supported = (case known of None \<Rightarrow> hint_supported E (effects m) hint | Some b \<Rightarrow> b)
     in (s\<lparr>mSupportedHints := umap_set hint (Some supported) (mSupportedHints s)\<rparr>,
         if supported then emit (DoHint hint) m else m))"

definition isTimeout :: "env \<Rightarrow> PHS \<times> PSM \<Rightarrow> (bool \<times> PSM) outcome" where
  "isTimeout E = (\<lambda>(s, m).
     let (now, m1) = steady_now E m in
     obind (arith (stale_ns (GetAdpfProfile E m1) (targetNs (mDescriptor s)))) (\<lambda>d.
     obind (arith (c64 (mLastUpdatedTime s + d))) (\<lambda>staleTime. Ret (now \<ge> staleTime, m1))))"

definition to_u32 :: "int \<Rightarrow> int" where
  "to_u32 x = x mod 2 ^ 32"

text \<open>The ratio of the maximum to the average: an integer division once there are records.\<close>

definition max_to_avg :: "SessionRecords \<Rightarrow> int \<Rightarrow> int \<Rightarrow> int \<Rightarrow> fp option" where
  "max_to_avg r target maxDurationUs avgDurationUs =
     (if getNumOfRecords r \<le> 0
      then Some (fp_div f64 (fp_mul f64 (fp_of_int f64 maxDurationUs) (Fin 1)) (fp_of_int f64 (target sdiv 1000)))
      else if avgDurationUs = 0 then None
      else Some (fp_of_int f64 (maxDurationUs sdiv avgDurationUs)))"

definition updateHeuristicBoost :: "env \<Rightarrow> PHS \<times> PSM \<Rightarrow> (bool \<times> PHS) outcome" where
  "updateHeuristicBoost E = (\<lambda>(s, m).
     case mSessionRecords s of
       None \<Rightarrow> Undefined
     | Some r \<Rightarrow>
         (case (getMaxDuration r, getAvgDuration r) of
            (Some maxUs, Some avgUs) \<Rightarrow>
              obind (arith (max_to_avg r (targetNs (mDescriptor s)) maxUs avgUs)) (\<lambda>ratio.
              let cfg = GetAdpfProfile E m; missed = getNumOfMissedCycles r in
              obind (opt_value (mLowFrameRateThreshold cfg)) (\<lambda>low.
              obind (if isLowFrameRate (to_i32 low) r then Ret False
                     else obind (opt_value (mHBoostOnMissedCycles cfg)) (\<lambda>on.
                          if to_u32 missed \<ge> on then Ret True
                          else obind (opt_value (mHBoostOffMissedCycles cfg)) (\<lambda>off.
                               if to_u32 missed \<le> off
                               then obind (opt_value (mHBoostOffMaxAvgRatio cfg)) (\<lambda>k.
                                    Ret (if fp_less ratio k then False else mHeuristicBoostActive s))
                               else Ret (mHeuristicBoostActive s))))
                (\<lambda>b. Ret (b, s\<lparr>mHeuristicBoostActive := b\<rparr>))))
          | _ \<Rightarrow> Ret (False, s)))"

subsection \<open>Creating and closing a session\<close>

text \<open>
  The constructor. \<open>counter\<close> is \<open>sSessionIDCounter\<close>; each use of the profile reads it anew,
  with no call of the program in between.
\<close>

definition session_records :: "AdpfConfig \<Rightarrow> SessionRecords option outcome" where
  "session_records cfg =
     (if heuristic_on cfg then
        obind (opt_value (mMaxRecordsNum cfg)) (\<lambda>n.
        obind (opt_value (mJankCheckTimeFactor cfg)) (\<lambda>f.
          Ret (Some (SessionRecords_init (to_i32 n) f))))
      else Ret None)"

definition PHS_new ::
  "env \<Rightarrow> int \<Rightarrow> int \<Rightarrow> tid list \<Rightarrow> int \<Rightarrow> int \<Rightarrow> int \<times> PSM \<Rightarrow> (PHS \<times> int \<times> PSM) outcome" where
  "PHS_new E tgid' uid' threadIds durationNs tag = (\<lambda>(counter, m).
     let sess = to_i64 (counter + 1);
         idStr = show_int tgid' @ ''-'' @ show_int uid' @ ''-'' @ show_int sess;
         desc = mkAppHintDesc sess tgid' uid' threadIds tag durationNs
     in obind (session_records (GetAdpfProfile E m)) (\<lambda>records.
        let (now, m1) = steady_now E m;
            s = \<lparr>mSessionId = sess, mIdString = idStr, mDescriptor = desc, mLastUpdatedTime = now,
                 mSessionClosed = False, mSupportedHints = [], mModes = (\<lambda>_. False), mTag = tag,
                 mSessionRecords = records, mHeuristicBoostActive = False, locked = False\<rparr>;
            m2 = addPowerSession E idStr (Some desc) threadIds m1;
            cfg = GetAdpfProfile E m2;
            (now1, m3) = steady_now E m2
        in obind (arith (half_stale_ns cfg durationNs)) (\<lambda>half.
           let m4 = voteSet_cpu E sess CPU_LOAD_RESET (to_i32 (mUclampMinLoadReset cfg)) kUclampMax now1 half m3;
               (now2, m5) = steady_now E m4;
               m6 = voteSet_cpu E sess CPU_VOTE_DEFAULT (to_i32 (mUclampMinInit cfg)) kUclampMax now2 durationNs m5
           in Ret (s, sess, m6))))"

definition PHS_close :: "env \<Rightarrow> PHS \<times> PSM \<Rightarrow> (status \<times> PHS \<times> PSM) outcome" where
  "PHS_close E = with_lock (\<lambda>(s, m).
     if mSessionClosed s then Ret (EX_ILLEGAL_STATE, s, m)
     else
       let s1 = s\<lparr>mSessionClosed := True\<rparr>;
           m1 = removePowerSession E (mSessionId s1) m
       in Ret (STATUS_OK, on_desc (is_active_update (\<lambda>_. False)) s1, m1))"

definition PHS_delete :: "env \<Rightarrow> PHS \<times> PSM \<Rightarrow> PSM outcome" where
  "PHS_delete E sm = obind (PHS_close E sm) (\<lambda>(_, _, m). Ret m)"

subsection \<open>Pausing\<close>

definition PHS_pause :: "env \<Rightarrow> PHS \<times> PSM \<Rightarrow> (status \<times> PHS \<times> PSM) outcome" where
  "PHS_pause E = with_lock (\<lambda>(s, m).
     if mSessionClosed s then Ret (EX_ILLEGAL_STATE, s, m)
     else if \<not> is_active (mDescriptor s) then Ret (EX_ILLEGAL_STATE, s, m)
     else
       let m1 = setThreadsFromPowerSession E (mSessionId s) [] m
       in Ret (STATUS_OK, on_desc (is_active_update (\<lambda>_. False)) s, PSM_pause E (mSessionId s) m1))"

definition PHS_resume :: "env \<Rightarrow> PHS \<times> PSM \<Rightarrow> (status \<times> PHS \<times> PSM) outcome" where
  "PHS_resume E = with_lock (\<lambda>(s, m).
     if mSessionClosed s then Ret (EX_ILLEGAL_STATE, s, m)
     else if is_active (mDescriptor s) then Ret (EX_ILLEGAL_STATE, s, m)
     else
       let m1 = setThreadsFromPowerSession E (mSessionId s) (thread_ids (mDescriptor s)) m
       in Ret (STATUS_OK, on_desc (is_active_update (\<lambda>_. True)) s, PSM_resume E (mSessionId s) m1))"

subsection \<open>Targets, threads and modes\<close>

definition PHS_updateTargetWorkDuration ::
  "env \<Rightarrow> int \<Rightarrow> PHS \<times> PSM \<Rightarrow> (status \<times> PHS \<times> PSM) outcome" where
  "PHS_updateTargetWorkDuration E targetDurationNanos = with_lock (\<lambda>(s, m).
     if mSessionClosed s then Ret (EX_ILLEGAL_STATE, s, m)
     else if targetDurationNanos \<le> 0 then Ret (EX_ILLEGAL_ARGUMENT, s, m)
     else
       obind (arith (fp_to_int 64 (fp_mul f64 (fp_of_int f64 targetDurationNanos)
         (mTargetTimeFactor (GetAdpfProfile E m))))) (\<lambda>t.
         Ret (STATUS_OK, on_desc (targetNs_update (\<lambda>_. t)) s,
              PSM_updateTargetWorkDuration (mSessionId s) CPU_VOTE_DEFAULT t m)))"

definition PHS_setMode :: "env \<Rightarrow> SessionMode \<Rightarrow> bool \<Rightarrow> PHS \<times> PSM \<Rightarrow> (status \<times> PHS \<times> PSM) outcome" where
  "PHS_setMode E mode enabled = with_lock (\<lambda>(s, m).
     if mSessionClosed s then Ret (EX_ILLEGAL_STATE, s, m)
     else case mode of
       SM_POWER_EFFICIENCY \<Rightarrow>
         let m1 = setPreferPowerEfficiency E (mSessionId s) enabled m;
             (now, m2) = steady_now E m1
         in Ret (STATUS_OK, s\<lparr>mModes := (mModes s)(mode := enabled), mLastUpdatedTime := now\<rparr>, m2)
     | _ \<Rightarrow> Ret (EX_ILLEGAL_ARGUMENT, s, m))"

definition PHS_setThreads :: "env \<Rightarrow> tid list \<Rightarrow> PHS \<times> PSM \<Rightarrow> (status \<times> PHS \<times> PSM) outcome" where
  "PHS_setThreads E threadIds = with_lock (\<lambda>(s, m).
     if mSessionClosed s then Ret (EX_ILLEGAL_STATE, s, m)
     else if threadIds = [] then Ret (EX_ILLEGAL_ARGUMENT, s, m)
     else
       let s1 = on_desc (thread_ids_update (\<lambda>_. threadIds)) s;
           m1 = setThreadsFromPowerSession E (mSessionId s) threadIds m
       in obind (updatePidControlVariable E (to_i32 (mUclampMinInit (GetAdpfProfile E m1))) True (s1, m1))
            (\<lambda>(s2, m2). Ret (STATUS_OK, s2, m2)))"

definition getSessionConfig :: "PHS \<Rightarrow> status \<times> sid" where
  "getSessionConfig s = (STATUS_OK, mSessionId s)"

definition getSessionTag :: "PHS \<Rightarrow> int" where
  "getSessionTag s = mTag s"

subsection \<open>Hints\<close>

definition vote_hint ::
  "env \<Rightarrow> AdpfVoteType \<Rightarrow> int \<Rightarrow> int option \<Rightarrow> PHS \<times> PSM \<Rightarrow> (PHS \<times> PSM) outcome" where
  "vote_hint E v lo dur = (\<lambda>(s, m).
     let (now, m1) = steady_now E m in
     obind (arith dur) (\<lambda>d. Ret (s, voteSet_cpu E (mSessionId s) v lo kUclampMax now d m1)))"

definition sendHint_cases ::
  "env \<Rightarrow> AdpfConfig \<Rightarrow> SessionHint \<Rightarrow> PHS \<times> PSM \<Rightarrow> (status \<times> PHS \<times> PSM) outcome" where
  "sendHint_cases E cfg hint = (\<lambda>(s, m).
     let d = mDescriptor s; target = targetNs d; ok = (\<lambda>(s', m'). Ret (STATUS_OK, s', m')) in
     case hint of
       SH_CPU_LOAD_UP \<Rightarrow>
         obind (updatePidControlVariable E (pidControlVariable d) True (s, m)) (\<lambda>sm.
         obind (vote_hint E CPU_LOAD_UP (to_i32 (mUclampMinLoadUp cfg)) (c64 (target * 2)) sm) ok)
     | SH_CPU_LOAD_DOWN \<Rightarrow>
         obind (updatePidControlVariable E (to_i32 (mUclampMinLow cfg)) True (s, m)) ok
     | SH_CPU_LOAD_RESET \<Rightarrow>
         obind (updatePidControlVariable E
           (to_i32 (max (mUclampMinInit cfg) (to_u32 (pidControlVariable d)))) False (s, m)) (\<lambda>sm.
         obind (vote_hint E CPU_LOAD_RESET (to_i32 (mUclampMinLoadReset cfg)) (half_stale_ns cfg target) sm) ok)
     | SH_CPU_LOAD_RESUME \<Rightarrow>
         obind (vote_hint E CPU_LOAD_RESUME (pidControlVariable d) (half_stale_ns cfg target) (s, m)) ok
     | SH_POWER_EFFICIENCY \<Rightarrow>
         obind (PHS_setMode E SM_POWER_EFFICIENCY True (s, m)) (\<lambda>(_, s', m'). Ret (STATUS_OK, s', m'))
     | SH_GPU_LOAD_UP \<Rightarrow>
         let (now, m1) = steady_now E m
         in ok (s, voteSet_gpu E (mSessionId s) GPU_LOAD_UP (to_i32 (mGpuCapacityLoadUpHeadroom cfg)) now target m1)
     | SH_GPU_LOAD_DOWN \<Rightarrow> ok (s, m)
     | SH_GPU_LOAD_RESET \<Rightarrow> ok (s, m)
     | _ \<Rightarrow> Ret (EX_ILLEGAL_ARGUMENT, s, m))"

definition PHS_sendHint :: "env \<Rightarrow> SessionHint \<Rightarrow> PHS \<times> PSM \<Rightarrow> (status \<times> PHS \<times> PSM) outcome" where
  "PHS_sendHint E hint = with_lock (\<lambda>(s, m).
     if mSessionClosed s then Ret (EX_ILLEGAL_STATE, s, m)
     else if targetNs (mDescriptor s) = 0 then Ret (EX_ILLEGAL_STATE, s, m)
     else obind (sendHint_cases E (GetAdpfProfile E m) hint (s, m)) (\<lambda>(st, s1, m1).
       if st \<noteq> STATUS_OK then Ret (st, s1, m1)
       else
         let (s2, m2) = tryToSendPowerHint E (session_hint_str E hint) (s1, m1);
             (now, m3) = steady_now E m2
         in Ret (STATUS_OK, s2\<lparr>mLastUpdatedTime := now\<rparr>, m3)))"

subsection \<open>Reported durations\<close>

text \<open>The new lower clamp: the old one plus the output, no more than the ceiling and no less than the floor.\<close>

definition uclampMinCeiling :: "AdpfConfig \<Rightarrow> bool \<Rightarrow> int outcome" where
  "uclampMinCeiling cfg heuristicBoostActive =
     (if heuristic_on cfg \<and> heuristicBoostActive then opt_value (mHBoostUclampMin cfg)
      else Ret (mUclampMinHigh cfg))"

definition next_min :: "AdpfConfig \<Rightarrow> int \<Rightarrow> int \<Rightarrow> int \<Rightarrow> int option" where
  "next_min cfg ceil pid output =
     (let sum = pid + to_i32 output
      in if in_signed 32 sum
         then Some (max (to_i32 (mUclampMinLow cfg)) (min (to_i32 ceil) sum)) else None)"

definition report_gpu ::
  "env \<Rightarrow> AdpfConfig \<Rightarrow> WorkDuration \<Rightarrow> PHS \<times> PSM \<Rightarrow> (status \<times> PHS \<times> PSM) outcome" where
  "report_gpu E cfg lastDuration = (\<lambda>(s, m).
     case mGpuBoostCapacityMax cfg of
       None \<Rightarrow> Ret (STATUS_OK, s, m)
     | Some capMax \<Rightarrow>
         if mGpuBoostOn cfg \<noteq> Some True \<or> gpuDurationNanos lastDuration = 0 then Ret (STATUS_OK, s, m)
         else obind (arith (gpuFrequency E m)) (\<lambda>gpu_freq.
           case gpu_freq of
             None \<Rightarrow> Ret (STATUS_OK, s, m)
           | Some f \<Rightarrow>
               let target = targetNs (mDescriptor s) in
               obind (arith (calculate_capacity lastDuration target f)) (\<lambda>cap.
               if to_i32 capMax < 0 then Undefined
               else
                 let clamped = min (max 0 cap) (to_i32 capMax); (now, m1) = steady_now E m in
                 obind (arith (stale_ns cfg target)) (\<lambda>stale.
                   Ret (STATUS_OK, s, voteSet_gpu E (mSessionId s) GPU_CAPACITY clamped now stale m1)))))"

definition first_frame :: "env \<Rightarrow> PHS \<times> PSM \<Rightarrow> PHS \<times> PSM" where
  "first_frame E = (\<lambda>(s, m).
     let (s1, m1) = (if PHS_isAppSession E s then tryToSendPowerHint E ''ADPF_FIRST_FRAME'' (s, m) else (s, m))
     in (s1, updateUniversalBoostMode E m1))"

definition add_records :: "AdpfConfig \<Rightarrow> env \<Rightarrow> WorkDuration list \<Rightarrow> PHS \<times> PSM \<Rightarrow> PHS outcome" where
  "add_records cfg E actualDurations = (\<lambda>(s, m).
     if heuristic_on cfg then
       obind (arith (Option.bind (mSessionRecords s) (addReportedDurations actualDurations (targetNs (mDescriptor s)))))
         (\<lambda>r. obind (updateHeuristicBoost E (s\<lparr>mSessionRecords := Some r\<rparr>, m)) (\<lambda>(_, s1). Ret s1))
     else Ret s)"

definition report_pid ::
  "env \<Rightarrow> AdpfConfig \<Rightarrow> WorkDuration list \<Rightarrow> PHS \<times> PSM \<Rightarrow> (status \<times> PHS \<times> PSM) outcome" where
  "report_pid E cfg actualDurations = (\<lambda>(s, m).
     obind (add_records cfg E actualDurations (s, m)) (\<lambda>s1.
     obind (arith (convertWorkDurationToBoostByPid (GetAdpfProfile E m) (mHeuristicBoostActive s1)
              (mDescriptor s1) actualDurations)) (\<lambda>(output, d).
     let s2 = s1\<lparr>mDescriptor := d\<rparr> in
     obind (uclampMinCeiling cfg (mHeuristicBoostActive s2)) (\<lambda>ceil.
     obind (arith (next_min cfg ceil (pidControlVariable d) output)) (\<lambda>v.
     obind (updatePidControlVariable E v True (s2, m)) (report_gpu E cfg (last actualDurations)))))))"

text \<open>What precedes the controller: counting, the time of the report, the first frame after a pause.\<close>

definition report_frame :: "env \<Rightarrow> WorkDuration list \<Rightarrow> PHS \<times> PSM \<Rightarrow> (PHS \<times> PSM) outcome" where
  "report_frame E actualDurations = (\<lambda>(s, m).
     let s1 = on_desc (update_count_update (\<lambda>n. (n + 1) mod 2 ^ 64)) s in
     obind (isTimeout E (s1, m)) (\<lambda>(isFirstFrame, m1).
     obind (arith (c64 (durationNanos (last actualDurations) - targetNs (mDescriptor s1)))) (\<lambda>_.
     let (now, m2) = steady_now E m1;
         s2 = s1\<lparr>mLastUpdatedTime := now\<rparr>;
         (s3, m3) = (if isFirstFrame then first_frame E (s2, m2) else (s2, m2))
     in Ret (s3, disableBoosts (mSessionId s3) m3))))"

definition report_update ::
  "env \<Rightarrow> AdpfConfig \<Rightarrow> WorkDuration list \<Rightarrow> PHS \<times> PSM \<Rightarrow> (status \<times> PHS \<times> PSM) outcome" where
  "report_update E cfg actualDurations = (\<lambda>(s, m).
     if \<not> mPidOn cfg
     then obind (updatePidControlVariable E (to_i32 (mUclampMinHigh cfg)) True (s, m))
            (\<lambda>(s', m'). Ret (STATUS_OK, s', m'))
     else report_pid E cfg actualDurations (s, m))"

definition PHS_reportActualWorkDuration ::
  "env \<Rightarrow> WorkDuration list \<Rightarrow> PHS \<times> PSM \<Rightarrow> (status \<times> PHS \<times> PSM) outcome" where
  "PHS_reportActualWorkDuration E actualDurations = with_lock (\<lambda>(s, m).
     if mSessionClosed s then Ret (EX_ILLEGAL_STATE, s, m)
     else if targetNs (mDescriptor s) = 0 then Ret (EX_ILLEGAL_STATE, s, m)
     else if actualDurations = [] then Ret (EX_ILLEGAL_ARGUMENT, s, m)
     else if \<not> is_active (mDescriptor s) then Ret (EX_ILLEGAL_STATE, s, m)
     else obind (report_frame E actualDurations (s, m)) (report_update E (GetAdpfProfile E m) actualDurations))"

subsection \<open>Descriptions\<close>

definition show_bool :: "bool \<Rightarrow> string" where
  "show_bool b = (if b then ''1'' else ''0'')"

definition dumpToStream :: "env \<Rightarrow> PHS \<times> PSM \<Rightarrow> (string \<times> PHS \<times> PSM) outcome" where
  "dumpToStream E = with_lock (\<lambda>(s, m).
     obind (isTimeout E (s, m)) (\<lambda>(t, m1).
       Ret (''ID.Min.Act.Timeout('' @ mIdString s @ '', '' @ show_int (pidControlVariable (mDescriptor s))
          @ '', '' @ show_bool (is_active (mDescriptor s)) @ '', '' @ show_bool t @ '')'', s, m1)))"

definition AppHintDesc_toString :: "AppHintDesc \<Rightarrow> string" where
  "AppHintDesc_toString d =
     ''session '' @ show_int (desc_sessionId d) @ ''\<newline>''
     @ ''  duration: '' @ show_int (targetNs d) @ '' ns\<newline>''
     @ ''  uclamp.min: '' @ show_int (pidControlVariable d) @ '' \<newline>''
     @ ''  uid: '' @ show_int (desc_uid d) @ '', tgid: '' @ show_int (desc_tgid d) @ ''\<newline>''"

text \<open>The names of the trace counters, as the constructor of \<open>AppDescriptorTrace\<close> fills them in.\<close>

definition trace_suffixes :: "string list" where
  "trace_suffixes =
     [''pid.err'', ''pid.integral'', ''pid.derivative'', ''pid.pOut'', ''pid.iOut'', ''pid.dOut'', ''pid.output'',
      ''target'', ''active'', ''add_threads'', ''act_last'', ''min'', ''batch_size'', ''hint_count'', ''hint_overtime'',
      ''is_first_frame'', ''hboost.avgDuration'', ''hboost.isActive'', ''hboost.isLowFrameRate'',
      ''hboost.maxDuration'', ''hboost.numOfMissedCycles'', ''cpu_duration'', ''gpu_duration'', ''gpu_capacity'']"

definition trace_name :: "string \<Rightarrow> string \<Rightarrow> string" where
  "trace_name idStr suffix = ''adpf.'' @ idStr @ ''-'' @ suffix"

definition traced_votes :: "AdpfVoteType list" where
  "traced_votes = [CPU_VOTE_DEFAULT, CPU_LOAD_UP, CPU_LOAD_RESET, CPU_LOAD_RESUME, VOTE_POWER_EFFICIENCY,
     GPU_LOAD_UP, GPU_LOAD_DOWN, GPU_LOAD_RESET, GPU_CAPACITY]"

definition AppDescriptorTrace :: "string list \<Rightarrow> string \<Rightarrow> string list" where
  "AppDescriptorTrace modeNames idStr =
     map (trace_name idStr)
       (trace_suffixes @ map (\<lambda>n. n @ ''_mode'') modeNames @ map (\<lambda>v. ''vote.'' @ AdpfVoteTypeToStr v) traced_votes)"

subsection \<open>Specification\<close>

definition live :: "PSM \<Rightarrow> sid set" where
  "live m = dom (STM_votes (mSessionTaskMap m))"

text \<open>
  What a call other than creating or closing a session does to the manager: some sequence of
  the manager's own methods, with the sessions it knows unchanged.
\<close>

definition quiet :: "env \<Rightarrow> PSM \<Rightarrow> PSM \<Rightarrow> bool" where
  "quiet E m m' \<longleftrightarrow> (psm_step E)\<^sup>*\<^sup>* m m' \<and> (psm_inv m \<longrightarrow> live m' = live m)"

definition kept :: "env \<Rightarrow> PHS \<times> PSM \<Rightarrow> PHS \<times> PSM \<Rightarrow> bool" where
  "kept E sm sm' \<longleftrightarrow>
     quiet E (snd sm) (snd sm') \<and> mSessionId (fst sm') = mSessionId (fst sm)
     \<and> mSessionClosed (fst sm') = mSessionClosed (fst sm)"

text \<open>What the manager has of a session: whether it is active, and its threads.\<close>

definition view :: "PSM \<Rightarrow> sid \<Rightarrow> (bool \<times> tid list) option" where
  "view m sess = map_option (\<lambda>(e, ts). (isActive e, ts)) (STM_abs (mSessionTaskMap m) sess)"

text \<open>No thread ever turns out dead.\<close>

definition threads_alive :: "env \<Rightarrow> bool" where
  "threads_alive E \<longleftrightarrow> (\<forall>h t. setattr_errno E h t \<noteq> kESRCH)"

text \<open>A session with a target of one millisecond on the sample manager, for the examples.\<close>

definition sample_session :: PHS where
  "sample_session =
     \<lparr>mSessionId = 1, mIdString = ''100-10001-1'', mDescriptor = sample_desc\<lparr>targetNs := 1000000\<rparr>,
      mLastUpdatedTime = 0, mSessionClosed = False, mSupportedHints = [], mModes = (\<lambda>_. False), mTag = 0,
      mSessionRecords = None, mHeuristicBoostActive = False, locked = False\<rparr>"

section \<open>Locking\<close>

lemma with_lock_Ret:
  "with_lock body (s, m) = Ret (r, s', m') \<longleftrightarrow>
     \<not> locked s \<and> (\<exists>s1. body (s\<lparr>locked := True\<rparr>, m) = Ret (r, s1, m') \<and> s' = s1\<lparr>locked := False\<rparr>)"
  by (auto simp: with_lock_def)

section \<open>The manager under a session\<close>

lemma quiet_refl [simp]: "quiet E m m"
  by (simp add: quiet_def)

lemma psm_inv_steps: "(psm_step E)\<^sup>*\<^sup>* m m' \<Longrightarrow> psm_inv m \<Longrightarrow> psm_inv m'"
  by (induction rule: rtranclp_induct) (auto intro: psm_inv_step)

lemma quiet_trans [trans]: "quiet E m m' \<Longrightarrow> quiet E m' m'' \<Longrightarrow> quiet E m m''"
  unfolding quiet_def by (auto dest: psm_inv_steps intro: rtranclp_trans)

lemma quiet_applies: "psm_step E m m' \<Longrightarrow> applies m m' \<Longrightarrow> quiet E m m'"
  by (auto simp: quiet_def applies_def live_def psm_inv_def)

lemma quiet_write_votes:
  assumes "psm_step E m m'" and "applies (on_map (STM_write_votes sess f) m) m1"
    and "STM_votes (mSessionTaskMap m') = STM_votes (mSessionTaskMap m1)" and "\<And>vs. Votes_wf vs \<Longrightarrow> Votes_wf (f vs)"
  shows "quiet E m m'"
proof -
  have "live m' = live m" if inv: "psm_inv m"
  proof -
    have wf: "STM_wf (mSessionTaskMap m)" using inv by (simp add: psm_inv_def)
    then have "STM_wf (mSessionTaskMap (on_map (STM_write_votes sess f) m))"
      using assms(4) by (simp add: on_map_def STM_write_votes_wf)
    then show ?thesis
      using assms(2,3) by (auto simp: applies_def live_def on_map_def STM_votes_write_votes [OF wf] domIff)
  qed
  with assms(1) show ?thesis by (simp add: quiet_def)
qed

lemma quiet_voteSet_cpu: "quiet E m (voteSet_cpu E sess v lo hi t dur m)"
proof (cases "STM_findSession sess (mSessionTaskMap m)")
  case (Some p)
  let ?f = "Votes_addCpu (vote_id v) (mkCpuVote True t dur lo hi)"
  let ?m1 = "on_map (STM_write_votes sess ?f) m"
  let ?m2 = "applyUclampLocked E sess t (on_map (STM_write_entry sess (\<lambda>e. e\<lparr>lastUpdatedTime := t\<rparr>)) ?m1)"
  have a: "applies ?m1 ?m2"
    by (rule applies_trans [OF applies_write_entry applies_applyUclampLocked]) simp_all
  have "mSessionTaskMap (voteSet_cpu E sess v lo hi t dur m) = mSessionTaskMap ?m2"
    by (simp add: Some voteSet_cpu_def Let_def STM_addVote_write [abs_def])
  then show ?thesis
    by (intro quiet_write_votes [OF psm_step.intros(9) a]) (simp_all add: Votes_wf_addCpu)
qed (simp add: voteSet_cpu_def)

lemma quiet_voteSet_gpu: "quiet E m (voteSet_gpu E sess v cap t dur m)"
proof (cases "STM_findSession sess (mSessionTaskMap m)")
  case (Some p)
  let ?f = "Votes_addGpu (vote_id v) (mkGpuVote True t dur cap)"
  let ?m1 = "on_map (STM_write_votes sess ?f) m"
  let ?m2 = "applyGpuVotesLocked E sess t (on_map (STM_write_entry sess (\<lambda>e. e\<lparr>lastUpdatedTime := t\<rparr>)) ?m1)"
  have a: "applies ?m1 ?m2"
    by (rule applies_trans [OF applies_write_entry applies_applyGpuVotesLocked]) simp_all
  have "mSessionTaskMap (voteSet_gpu E sess v cap t dur m) = mSessionTaskMap ?m2"
    by (simp add: Some voteSet_gpu_def Let_def STM_addGpuVote_write [abs_def])
  then show ?thesis
    by (intro quiet_write_votes [OF psm_step.intros(10) a]) (simp_all add: Votes_wf_addGpu)
qed (simp add: voteSet_gpu_def)

lemma quiet_disableBoosts: "quiet E m (disableBoosts sess m)"
proof (rule quiet_write_votes [OF psm_step.intros(11)])
  show "applies (on_map (STM_write_votes sess
      (fold (\<lambda>vid vs. snd (setUseVote (vote_id vid) False vs)) boost_votes)) m) (disableBoosts sess m)"
    by (simp add: disableBoosts_def)
  show "Votes_wf (fold (\<lambda>vid vs. snd (setUseVote (vote_id vid) False vs)) boost_votes vs)" if "Votes_wf vs" for vs
    using that by (intro fold_invariant [where Q = "\<lambda>_. True" and P = Votes_wf]) (auto intro: Votes_wf_ops)
qed simp

lemma quiet_updateTarget: "quiet E m (PSM_updateTargetWorkDuration sess CPU_VOTE_DEFAULT dur m)"
proof (rule quiet_write_votes [OF psm_step.intros(8)])
  show "applies (on_map (STM_write_votes sess (Votes_updateDuration (vote_id CPU_VOTE_DEFAULT) dur)) m)
      (PSM_updateTargetWorkDuration sess CPU_VOTE_DEFAULT dur m)"
    by (simp add: PSM_updateTargetWorkDuration_def)
qed (simp_all add: Votes_wf_ops)

lemmas quiet_ops =
  quiet_voteSet_cpu quiet_voteSet_gpu quiet_disableBoosts quiet_updateTarget
  quiet_applies [OF psm_step.intros(3) applies_setThreads] quiet_applies [OF psm_step.intros(4) applies_pause]
  quiet_applies [OF psm_step.intros(5) applies_resume]
  quiet_applies [OF psm_step.intros(6) applies_setPreferPowerEfficiency]
  quiet_applies [OF psm_step.intros(7) applies_updateUniversalBoostMode]
  quiet_applies [OF psm_step.intros(18) applies_now]

lemmas quiet_now_ops =
  quiet_trans [OF quiet_ops(10) quiet_voteSet_cpu] quiet_trans [OF quiet_ops(10) quiet_voteSet_gpu]

lemma quiet_DoHint: "quiet E m (emit (DoHint h) m)"
  by (rule quiet_applies [OF psm_step.intros(19)]) (simp add: applies_emit)

subsection \<open>Parts of the methods\<close>

lemma kept_refl [simp]: "kept E sm sm"
  by (simp add: kept_def)

lemma kept_trans [trans]: "kept E a b \<Longrightarrow> kept E b c \<Longrightarrow> kept E a c"
  by (auto simp: kept_def intro: quiet_trans)

lemma keptI:
  "quiet E m m' \<Longrightarrow> mSessionId s' = mSessionId s \<Longrightarrow> mSessionClosed s' = mSessionClosed s \<Longrightarrow> kept E (s, m) (s', m')"
  by (simp add: kept_def)

lemma on_desc_frame [simp]:
  "mSessionId (on_desc f s) = mSessionId s" "mSessionClosed (on_desc f s) = mSessionClosed s"
  "mDescriptor (on_desc f s) = f (mDescriptor s)" "locked (on_desc f s) = locked s"
  by (simp_all add: on_desc_def)

lemma kept_updatePid: "updatePidControlVariable E v b sm = Ret sm' \<Longrightarrow> kept E sm sm'"
  by (cases sm)
    (auto simp: updatePidControlVariable_def Let_def case_prod_unfold split: if_splits
      intro!: keptI quiet_now_ops)

lemma kept_try: "kept E sm (tryToSendPowerHint E h sm)"
  by (cases sm) (auto simp: tryToSendPowerHint_def Let_def intro!: keptI quiet_DoHint)

lemma quiet_isTimeout: "isTimeout E (s, m) = Ret (b, m') \<Longrightarrow> quiet E m m'"
  by (auto simp: isTimeout_def Let_def case_prod_unfold intro: quiet_ops)

lemma kept_vote_hint: "vote_hint E v lo d sm = Ret sm' \<Longrightarrow> kept E sm sm'"
  by (cases sm)
    (auto simp: vote_hint_def Let_def case_prod_unfold intro!: keptI quiet_now_ops)

lemma kept_with_lock:
  assumes "with_lock body (s, m) = Ret (r, s', m')"
    and "\<And>s m r s' m'. body (s, m) = Ret (r, s', m') \<Longrightarrow> kept E (s, m) (s', m')"
  shows "kept E (s, m) (s', m')" "\<not> locked s'"
proof -
  obtain s1 where "body (s\<lparr>locked := True\<rparr>, m) = Ret (r, s1, m')" "s' = s1\<lparr>locked := False\<rparr>"
    using assms(1) by (auto simp: with_lock_Ret)
  then show "kept E (s, m) (s', m')" "\<not> locked s'" using assms(2) by (fastforce simp: kept_def)+
qed

lemma kept_setMode:
  "PHS_setMode E md b (s, m) = Ret (r, s', m') \<Longrightarrow> kept E (s, m) (s', m') \<and> \<not> locked s'"
  unfolding PHS_setMode_def
  by (rule conjI; erule kept_with_lock)
    (auto simp: Let_def case_prod_unfold split: if_splits SessionMode.splits
      intro!: keptI quiet_trans [OF quiet_ops(8) quiet_ops(10)])

lemma kept_first_frame: "kept E sm (first_frame E sm)"
proof (cases sm)
  case (Pair s m)
  define sm1 where "sm1 = (if PHS_isAppSession E s then tryToSendPowerHint E ''ADPF_FIRST_FRAME'' (s, m) else (s, m))"
  have "kept E (s, m) sm1" by (simp add: sm1_def kept_try)
  moreover have "kept E sm1 (fst sm1, updateUniversalBoostMode E (snd sm1))"
    by (simp add: kept_def quiet_ops)
  ultimately have "kept E (s, m) (fst sm1, updateUniversalBoostMode E (snd sm1))" by (rule kept_trans)
  then show ?thesis by (auto simp: Pair first_frame_def sm1_def Let_def case_prod_unfold split: if_splits)
qed

lemma updateHeuristicBoost_frame:
  "updateHeuristicBoost E (s, m) = Ret (b, s') \<Longrightarrow> \<exists>h. s' = s\<lparr>mHeuristicBoostActive := h\<rparr>"
proof -
  assume "updateHeuristicBoost E (s, m) = Ret (b, s')"
  then have "s' = s \<or> (\<exists>h. s' = s\<lparr>mHeuristicBoostActive := h\<rparr>)"
    by (auto simp: updateHeuristicBoost_def Let_def split: option.splits)
  then show ?thesis by (auto intro: exI [of _ "mHeuristicBoostActive s"])
qed

lemma add_records_frame:
  "add_records cfg E ds (s, m) = Ret s' \<Longrightarrow>
     \<exists>r h. s' = s\<lparr>mSessionRecords := r, mHeuristicBoostActive := h\<rparr>"
proof (cases "heuristic_on cfg")
  case True
  assume "add_records cfg E ds (s, m) = Ret s'"
  with True obtain r b where "updateHeuristicBoost E (s\<lparr>mSessionRecords := Some r\<rparr>, m) = Ret (b, s')"
    by (auto simp: add_records_def)
  from updateHeuristicBoost_frame [OF this] show ?thesis by auto
next
  case False
  assume "add_records cfg E ds (s, m) = Ret s'"
  with False have "s' = s\<lparr>mSessionRecords := mSessionRecords s, mHeuristicBoostActive := mHeuristicBoostActive s\<rparr>"
    by (simp add: add_records_def)
  then show ?thesis by blast
qed

lemma kept_report_gpu: "report_gpu E cfg d (s, m) = Ret (r, s', m') \<Longrightarrow> kept E (s, m) (s', m')"
  by (auto simp: report_gpu_def Let_def case_prod_unfold split: option.splits if_splits
      intro!: keptI quiet_now_ops)

lemma report_gpu_session: "report_gpu E cfg d (s, m) = Ret (r, s', m') \<Longrightarrow> r = STATUS_OK \<and> s' = s"
  by (auto simp: report_gpu_def Let_def case_prod_unfold split: option.splits if_splits)

text \<open>What a successful run of the controller leaves in the descriptor.\<close>

lemma report_pidE:
  assumes "report_pid E cfg ds (s, m) = Ret (r, s', m')"
  obtains s1 out d c v sm where "add_records cfg E ds (s, m) = Ret s1"
    "convertWorkDurationToBoostByPid (GetAdpfProfile E m) (mHeuristicBoostActive s1) (mDescriptor s1) ds = Some (out, d)"
    "uclampMinCeiling cfg (mHeuristicBoostActive s1) = Ret c"
    "next_min cfg c (pidControlVariable d) out = Some v"
    "updatePidControlVariable E v True (s1\<lparr>mDescriptor := d\<rparr>, m) = Ret sm"
    "report_gpu E cfg (last ds) sm = Ret (r, s', m')"
  using assms by (auto simp: report_pid_def Let_def)

lemma kept_report_pid:
  assumes "report_pid E cfg ds (s, m) = Ret (r, s', m')"
  shows "kept E (s, m) (s', m')"
proof -
  from assms obtain s1 out d c v sm where r: "add_records cfg E ds (s, m) = Ret s1"
    "updatePidControlVariable E v True (s1\<lparr>mDescriptor := d\<rparr>, m) = Ret sm"
    "report_gpu E cfg (last ds) sm = Ret (r, s', m')"
    by (rule report_pidE)
  obtain s2 m2 where sm: "sm = (s2, m2)" by fastforce
  have "kept E (s, m) (s1\<lparr>mDescriptor := d\<rparr>, m)"
    using add_records_frame [OF r(1)] by (auto intro: keptI)
  also have "kept E (s1\<lparr>mDescriptor := d\<rparr>, m) sm" using r(2) by (rule kept_updatePid)
  also have "kept E sm (s', m')" using r(3) unfolding sm by (rule kept_report_gpu)
  finally show ?thesis .
qed

lemma kept_report_frame:
  assumes "report_frame E ds (s, m) = Ret sm"
  shows "kept E (s, m) sm"
proof -
  let ?s1 = "on_desc (update_count_update (\<lambda>n. (n + 1) mod 2 ^ 64)) s"
  from assms obtain ff m1 where t: "isTimeout E (?s1, m) = Ret (ff, m1)"
    and sm: "sm = (let s2 = ?s1\<lparr>mLastUpdatedTime := fst (steady_now E m1)\<rparr>; m2 = snd (steady_now E m1);
        (s3, m3) = (if ff then first_frame E (s2, m2) else (s2, m2)) in (s3, disableBoosts (mSessionId s3) m3))"
    by (auto simp: report_frame_def Let_def case_prod_unfold)
  define s2 where "s2 = ?s1\<lparr>mLastUpdatedTime := fst (steady_now E m1)\<rparr>"
  define sm3 where "sm3 = (if ff then first_frame E (s2, snd (steady_now E m1)) else (s2, snd (steady_now E m1)))"
  have "quiet E m (snd (steady_now E m1))"
    using quiet_isTimeout [OF t] quiet_ops(10) by (rule quiet_trans)
  then have "kept E (s, m) (s2, snd (steady_now E m1))" by (intro keptI) (simp_all add: s2_def)
  also have "kept E (s2, snd (steady_now E m1)) sm3" by (simp add: sm3_def kept_first_frame)
  also have "kept E sm3 (fst sm3, disableBoosts (mSessionId (fst sm3)) (snd sm3))"
    by (simp add: kept_def quiet_ops)
  also have "(fst sm3, disableBoosts (mSessionId (fst sm3)) (snd sm3)) = sm"
    unfolding sm sm3_def s2_def by (simp add: Let_def case_prod_unfold)
  finally show ?thesis .
qed

lemma kept_report_update: "report_update E cfg ds sm = Ret (r, s', m') \<Longrightarrow> kept E sm (s', m')"
  by (cases sm) (auto simp: report_update_def dest: kept_updatePid kept_report_pid split: if_splits)

subsection \<open>The methods\<close>

lemma kept_report:
  "PHS_reportActualWorkDuration E ds (s, m) = Ret (r, s', m') \<Longrightarrow> kept E (s, m) (s', m') \<and> \<not> locked s'"
  unfolding PHS_reportActualWorkDuration_def
  by (rule conjI; erule kept_with_lock)
    (auto split: if_splits dest!: kept_report_frame kept_report_update intro: kept_trans)

lemma kept_pause: "PHS_pause E (s, m) = Ret (r, s', m') \<Longrightarrow> kept E (s, m) (s', m') \<and> \<not> locked s'"
  unfolding PHS_pause_def
  by (rule conjI; erule kept_with_lock)
    (auto simp: Let_def split: if_splits intro!: keptI quiet_trans [OF quiet_ops(5) quiet_ops(6)])

lemma kept_resume: "PHS_resume E (s, m) = Ret (r, s', m') \<Longrightarrow> kept E (s, m) (s', m') \<and> \<not> locked s'"
  unfolding PHS_resume_def
  by (rule conjI; erule kept_with_lock)
    (auto simp: Let_def split: if_splits intro!: keptI quiet_trans [OF quiet_ops(5) quiet_ops(7)])

lemma kept_updateTarget:
  "PHS_updateTargetWorkDuration E t (s, m) = Ret (r, s', m') \<Longrightarrow> kept E (s, m) (s', m') \<and> \<not> locked s'"
  unfolding PHS_updateTargetWorkDuration_def
  by (rule conjI; erule kept_with_lock) (auto split: if_splits intro!: keptI quiet_ops)

lemma kept_setThreads:
  "PHS_setThreads E ts (s, m) = Ret (r, s', m') \<Longrightarrow> kept E (s, m) (s', m') \<and> \<not> locked s'"
proof -
  have k: "kept E (s, m) (on_desc f s, setThreadsFromPowerSession E (mSessionId s) ts m)" for s m f
    by (simp add: keptI quiet_ops)
  show "PHS_setThreads E ts (s, m) = Ret (r, s', m') \<Longrightarrow> kept E (s, m) (s', m') \<and> \<not> locked s'"
    unfolding PHS_setThreads_def
    by (rule conjI; erule kept_with_lock)
      (auto simp: Let_def split: if_splits dest!: kept_updatePid intro: kept_trans [OF k])
qed

lemma kept_sendHint_cases:
  "sendHint_cases E cfg h (s, m) = Ret (r, s', m') \<Longrightarrow> kept E (s, m) (s', m')"
  by (cases h)
    (auto simp: sendHint_cases_def Let_def case_prod_unfold
      dest!: kept_updatePid kept_vote_hint kept_setMode intro: kept_trans keptI quiet_now_ops)

lemma kept_sendHint: "PHS_sendHint E h (s, m) = Ret (r, s', m') \<Longrightarrow> kept E (s, m) (s', m') \<and> \<not> locked s'"
proof -
  have k: "kept E sm ((fst (tryToSendPowerHint E k sm))\<lparr>mLastUpdatedTime := t\<rparr>,
      snd (steady_now E (snd (tryToSendPowerHint E k sm))))" for sm k t
    using kept_try [of E sm k] quiet_ops(10) by (auto simp: kept_def intro: quiet_trans)
  show "PHS_sendHint E h (s, m) = Ret (r, s', m') \<Longrightarrow> kept E (s, m) (s', m') \<and> \<not> locked s'"
    unfolding PHS_sendHint_def
    by (rule conjI; erule kept_with_lock)
      (auto simp: Let_def case_prod_unfold split: if_splits dest!: kept_sendHint_cases intro: kept_trans [OF _ k])
qed

subsection \<open>Creating and closing\<close>

lemma live_applies: "psm_inv m \<Longrightarrow> applies m m' \<Longrightarrow> live m' = live m"
  by (auto simp: applies_def live_def psm_inv_def)

lemma live_addPowerSession:
  assumes inv: "psm_inv m"
  shows "live (addPowerSession E idStr (Some d) ts m) = insert (desc_sessionId d) (live m)"
proof -
  from addPowerSession_steps [OF inv] obtain m2 where m2: "STM_wf m2"
    "STM_votes m2 = (STM_votes (mSessionTaskMap m))(desc_sessionId d \<mapsto>
       (case STM_votes (mSessionTaskMap m) (desc_sessionId d) of
          None \<Rightarrow> default_votes (fst (steady_now E m)) d | Some v \<Rightarrow> v))"
    "addPowerSession E idStr (Some d) ts m =
      setThreadsFromPowerSession E (desc_sessionId d) ts ((snd (steady_now E m))\<lparr>mSessionTaskMap := m2\<rparr>)"
    by blast
  let ?m1 = "(snd (steady_now E m))\<lparr>mSessionTaskMap := m2\<rparr>"
  have "STM_votes (mSessionTaskMap (setThreadsFromPowerSession E (desc_sessionId d) ts ?m1)) = STM_votes m2"
    using applies_setThreads [of ?m1 E "desc_sessionId d" ts] m2(1) by (simp add: applies_def)
  with m2(2,3) show ?thesis by (auto simp: live_def)
qed

lemma live_removePowerSession:
  assumes inv: "psm_inv m"
  shows "live (removePowerSession E sess m) = live m - {sess}"
proof -
  let ?m1 = "forceSessionActive E sess False m"
  have inv1: "psm_inv ?m1" using inv applies_forceSessionActive by (rule psm_inv_applies)
  then have wf: "STM_wf (mSessionTaskMap ?m1)" by (simp add: psm_inv_def)
  have "STM_votes (mSessionTaskMap (removePowerSession E sess m)) =
      (STM_votes (mSessionTaskMap ?m1))(sess := None)"
    by (simp add: removePowerSession_steps Let_def unregisterSession_def STM_votes_remove STM_votes_replace [OF wf])
  with live_applies [OF inv applies_forceSessionActive [of m E sess False]] show ?thesis
    by (auto simp: live_def)
qed

lemma PHS_close_outcome:
  "PHS_close E (s, m) =
     (if locked s then Deadlock
      else if mSessionClosed s then Ret (EX_ILLEGAL_STATE, s, m)
      else Ret (STATUS_OK, on_desc (is_active_update (\<lambda>_. False)) (s\<lparr>mSessionClosed := True\<rparr>),
             removePowerSession E (mSessionId s) m))"
  by (simp add: PHS_close_def with_lock_def Let_def on_desc_def)

lemma psm_steps_quiet: "quiet E m m' \<Longrightarrow> (psm_step E)\<^sup>*\<^sup>* m m'"
  by (simp add: quiet_def)

lemma PHS_new_outcome:
  assumes "PHS_new E tg u ts dur tag (c, m) = Ret (s, c', m')" and inv: "psm_inv m"
  shows "c' = to_i64 (c + 1) \<and> mSessionId s = c' \<and> \<not> mSessionClosed s \<and> \<not> locked s
    \<and> (psm_step E)\<^sup>*\<^sup>* m m' \<and> live m' = insert c' (live m)"
proof -
  let ?sess = "to_i64 (c + 1)"
  let ?desc = "mkAppHintDesc ?sess tg u ts tag dur"
  let ?m1 = "snd (steady_now E m)"
  define idStr where "idStr = show_int tg @ ''-'' @ show_int u @ ''-'' @ show_int ?sess"
  have s: "c' = ?sess" "mSessionId s = ?sess" "\<not> mSessionClosed s" "\<not> locked s"
    and q: "quiet E (addPowerSession E idStr (Some ?desc) ts ?m1) m'"
    using assms(1)
    by (auto simp: PHS_new_def Let_def case_prod_unfold idStr_def
        intro: quiet_trans [OF quiet_now_ops(1) quiet_now_ops(1)])
  let ?m2 = "addPowerSession E idStr (Some ?desc) ts ?m1"
  have q1: "quiet E m ?m1" by (rule quiet_ops)
  have inv1: "psm_inv ?m1" using inv applies_now by (rule psm_inv_applies)
  have "(psm_step E)\<^sup>*\<^sup>* m ?m2"
    using psm_steps_quiet [OF q1] psm_step.intros(1) by (rule rtranclp.rtrancl_into_rtrancl)
  then have "(psm_step E)\<^sup>*\<^sup>* m m'" using psm_steps_quiet [OF q] by (rule rtranclp_trans)
  moreover have "live m' = insert ?sess (live m)"
    using q q1 inv live_addPowerSession [OF inv1, of E idStr ?desc ts] psm_inv_addPowerSession [OF inv1]
    by (simp add: quiet_def mkAppHintDesc_def)
  ultimately show ?thesis using s by simp
qed

subsection \<open>What the manager has of a session\<close>

lemma uclamp_loop_alive:
  assumes "threads_alive E"
  shows "mSessionTaskMap (uclamp_loop E cfg sess t i s) = mSessionTaskMap s"
  using assms
proof (induction E cfg sess t i s rule: uclamp_loop.induct)
  case (1 E cfg sess t i s)
  let ?ts = "STM_getTaskIds sess (mSessionTaskMap s)"
  let ?rng = "STM_getTaskVoteRange (?ts ! i) t UclampRange_default (mUclampMaxEfficientBase cfg)
      (efficient_offset E cfg) (mSessionTaskMap s)"
  obtain stat s1 where s1: "set_uclamp E (?ts ! i) ?rng s = (stat, s1)" by fastforce
  then have "mSessionTaskMap s1 = mSessionTaskMap s" "stat \<noteq> kESRCH"
    using set_uclamp_map [of E "?ts ! i" ?rng s] 1(3) by (auto simp: set_uclamp_def Let_def threads_alive_def)
  with 1(2) [OF refl _ refl refl s1 [symmetric] refl _ 1(3)] s1 show ?case
    by (subst uclamp_loop.simps) (auto simp: Let_def)
qed

lemma view_write_entry:
  assumes "STM_wf (mSessionTaskMap m)"
  shows "view (on_map (STM_write_entry sess f) m) sess' =
    (if sess' = sess then map_option (\<lambda>(e, ts). (isActive (f e), ts)) (STM_abs (mSessionTaskMap m) sess)
     else view m sess')"
  using assms by (simp add: view_def on_map_def STM_write_entry_abs option.map_comp comp_def case_prod_unfold)

lemma view_applyCpuAndGpuVotes:
  assumes wf: "STM_wf (mSessionTaskMap m)" and alive: "threads_alive E"
  shows "view (applyCpuAndGpuVotes E sess t m) = view m"
proof -
  have u: "view (applyUclampLocked E sess t m) = view m"
    using wf by (auto simp: applyUclampLocked_def Let_def view_write_entry uclamp_loop_alive [OF alive] fun_eq_iff
        split: option.split) (simp_all add: view_def uclamp_loop_alive [OF alive])
  have w: "STM_wf (mSessionTaskMap (applyUclampLocked E sess t m))"
    using wf applies_applyUclampLocked [of m E sess t] by (simp add: applies_def)
  have e: "view (emit ef m') = view m'" for ef m' by (simp add: view_def emit_def fun_eq_iff)
  have g: "view (on_map (STM_write_entry sess (lastUpdatedTime_update (\<lambda>_. t))) m') = view m'"
    if "STM_wf (mSessionTaskMap m')" for m'
    using that by (auto simp: view_write_entry fun_eq_iff) (simp add: view_def)
  have "view (applyGpuVotesLocked E sess t m') = view m'" if "STM_wf (mSessionTaskMap m')" for m'
    using that by (auto simp: applyGpuVotesLocked_def Let_def g e emit_def split: option.split)
      (simp_all add: view_def emit_def fun_eq_iff)
  with u w show ?thesis by (simp add: applyCpuAndGpuVotes_def)
qed

lemma view_reapply:
  assumes "STM_wf (mSessionTaskMap m)" and "threads_alive E"
  shows "view (reapply E sess m) = view m"
proof -
  have n: "mSessionTaskMap (snd (steady_now E m)) = mSessionTaskMap m" by (simp add: steady_now_def emit_def)
  have "view (updateUniversalBoostMode E m') = view m'" for m' by (simp add: view_def fun_eq_iff)
  then show ?thesis
    using view_applyCpuAndGpuVotes [OF _ assms(2), of "snd (steady_now E m)"] assms(1) n
    by (simp add: reapply_def case_prod_unfold Let_def) (simp add: view_def fun_eq_iff n)
qed

lemma STM_findSession_view: "STM_findSession sess (mSessionTaskMap m) = None \<longleftrightarrow> view m sess = None"
  by (auto simp: STM_findSession_def view_def STM_abs_def split: option.splits)

lemma view_set_active:
  assumes "STM_wf (mSessionTaskMap m)" and "threads_alive E"
  shows "view (reapply E sess (on_map (STM_write_entry sess (isActive_update (\<lambda>_. b))) m)) =
    (view m)(sess := map_option (\<lambda>(_, ts). (b, ts)) (view m sess))"
proof -
  let ?m = "on_map (STM_write_entry sess (isActive_update (\<lambda>_. b))) m"
  have "STM_wf (mSessionTaskMap ?m)" using assms(1) by (simp add: on_map_def STM_write_entry_wf)
  from view_reapply [OF this assms(2)] show ?thesis
    using assms(1) by (auto simp: view_write_entry fun_eq_iff)
      (simp add: view_def option.map_comp comp_def case_prod_unfold)
qed

lemma view_forceSessionActive:
  assumes "STM_wf (mSessionTaskMap m)" and "threads_alive E"
  shows "view (forceSessionActive E sess b m) = (view m)(sess := map_option (\<lambda>(_, ts). (b, ts)) (view m sess))"
proof (cases "STM_findSession sess (mSessionTaskMap m)")
  case None
  then show ?thesis using STM_findSession_view [of sess m] by (auto simp: forceSessionActive_def fun_eq_iff)
next
  case (Some p)
  then show ?thesis using view_set_active [OF assms] by (simp add: forceSessionActive_def)
qed

lemma view_setThreads:
  assumes wf: "STM_wf (mSessionTaskMap m)" and alive: "threads_alive E"
  shows "view (setThreadsFromPowerSession E sess ts m) = (view m)(sess := map_option (\<lambda>_. (True, ts)) (view m sess))"
proof -
  let ?m1 = "forceSessionActive E sess False m"
  let ?m2 = "?m1\<lparr>mSessionTaskMap := STM_replaced sess ts (mSessionTaskMap ?m1)\<rparr>"
  have wf1: "STM_wf (mSessionTaskMap ?m1)"
    using wf applies_forceSessionActive [of m E sess False] by (simp add: applies_def)
  have v2: "view ?m2 = (view m)(sess := map_option (\<lambda>_. (False, ts)) (view m sess))"
  proof
    fix x
    have f: "view ?m1 x = ((view m)(sess := map_option (\<lambda>(_, ts). (False, ts)) (view m sess))) x"
      using view_forceSessionActive [OF wf alive, of sess False] by simp
    show "view ?m2 x = ((view m)(sess := map_option (\<lambda>_. (False, ts)) (view m sess))) x"
      using f
      by (cases "STM_abs (mSessionTaskMap ?m1) x"; cases "STM_abs (mSessionTaskMap m) x"; cases "x = sess")
        (auto simp: view_def STM_abs_replace [OF wf1])
  qed
  have "view (forceSessionActive E sess True (set_profiles p as (set_profiles q bs ?m2))) =
      (view m)(sess := map_option (\<lambda>_. (True, ts)) (view m sess))" for p q as bs
  proof -
    let ?m3 = "set_profiles p as (set_profiles q bs ?m2)"
    have "STM_wf (mSessionTaskMap ?m3)" using STM_replace_wf [OF wf1] by simp
    moreover have "view ?m3 = view ?m2" by (simp add: view_def fun_eq_iff)
    ultimately show ?thesis using view_forceSessionActive [OF _ alive, of ?m3 sess True] v2
      by (simp add: fun_eq_iff option.map_comp comp_def)
  qed
  then show ?thesis by (simp add: setThreads_steps Let_def)
qed

lemma view_pause:
  assumes "STM_wf (mSessionTaskMap m)" and "threads_alive E" and "view m sess = Some (True, ts)"
  shows "view (PSM_pause E sess m) = (view m)(sess \<mapsto> (False, ts))"
proof -
  obtain p where "STM_findSession sess (mSessionTaskMap m) = Some p"
    using assms(3) STM_findSession_view [of sess m] by auto
  moreover from this have "isActive (entryStore (mSessionTaskMap m) p)"
    using assms(3) by (auto simp: view_def STM_findSession_def STM_abs_def split: option.splits)
  ultimately show ?thesis using view_set_active [OF assms(1,2), of sess False] assms(3) by (simp add: PSM_pause_def)
qed

lemma view_resume_active:
  "view m sess = Some (True, ts) \<Longrightarrow> PSM_resume E sess m = m"
  by (auto simp: PSM_resume_def view_def STM_findSession_def STM_abs_def split: option.splits)

section \<open>Properties\<close>



text \<open>
  C23: \<open>sendHint\<close> waits for its own lock exactly when the hint is \<open>POWER_EFFICIENCY\<close> and the
  session is open and has a target: \<open>setMode\<close>, which it calls, takes the same lock again.
\<close>
theorem sendHint_deadlock:
  assumes "\<not> locked s"
  shows "PHS_sendHint E h (s, m) = Deadlock \<longleftrightarrow>
    h = SH_POWER_EFFICIENCY \<and> \<not> mSessionClosed s \<and> targetNs (mDescriptor s) \<noteq> 0"
proof -
  have u: "updatePidControlVariable E v b sm \<noteq> Deadlock" for v b sm
    by (cases sm) (auto simp: updatePidControlVariable_def Let_def case_prod_unfold)
  have v: "vote_hint E k lo d sm \<noteq> Deadlock" for k lo d sm
    by (cases sm) (auto simp: vote_hint_def Let_def case_prod_unfold)
  have "sendHint_cases E cfg h (s\<lparr>locked := True\<rparr>, m) = Deadlock \<longleftrightarrow> h = SH_POWER_EFFICIENCY" for cfg
    by (cases h) (auto simp: sendHint_cases_def Let_def case_prod_unfold u v PHS_setMode_def with_lock_def)
  with assms show ?thesis
    by (auto simp: PHS_sendHint_def with_lock_def Let_def case_prod_unfold split: if_splits)
qed

theorem sendHint_deadlock_witness:
  "PHS_sendHint sample_env SH_POWER_EFFICIENCY (sample_session, sample_psm) = Deadlock"
  using sendHint_deadlock [of sample_session] by (simp add: sample_session_def sample_desc_def mkAppHintDesc_def)

text \<open>
  C27: After a report that returns, the lower clamp is between the floor and the ceiling of the
  profile, where the ceiling is the raised one only while the heuristic boost is on and active.
\<close>
theorem report_clamps:
  assumes "PHS_reportActualWorkDuration E ds (s, m) = Ret (STATUS_OK, s', m')"
    and cfg: "cfg = adpf_profile E (effects m)"
    and "0 \<le> mUclampMinLow cfg" and "mUclampMinLow cfg \<le> mUclampMinHigh cfg" and "mUclampMinHigh cfg < 2 ^ 31"
    and "\<And>k. mHBoostUclampMin cfg = Some k \<Longrightarrow> 0 \<le> k \<and> k < 2 ^ 31"
  shows "mUclampMinLow cfg \<le> pidControlVariable (mDescriptor s')
    \<and> pidControlVariable (mDescriptor s') \<le>
        max (mUclampMinHigh cfg) (if heuristic_on cfg \<and> mHeuristicBoostActive s' then the (mHBoostUclampMin cfg) else 0)"
proof -
  have i32: "to_i32 k = k" if "0 \<le> k" "k < 2 ^ 31" for k
    using that by (simp add: to_signed_id in_signed_def)
  have upd: "pidControlVariable (mDescriptor (fst sm')) = v \<and> mHeuristicBoostActive (fst sm') = mHeuristicBoostActive (fst sm)"
    if "updatePidControlVariable E v b sm = Ret sm'" for v b sm sm'
    using that by (cases sm) (auto simp: updatePidControlVariable_def Let_def case_prod_unfold on_desc_def split: if_splits)
  from assms(1) obtain s1 s2 m2 where s': "s' = s2\<lparr>locked := False\<rparr>"
    and r: "report_update E cfg ds s1 = Ret (STATUS_OK, s2, m2)"
    by (auto simp: PHS_reportActualWorkDuration_def with_lock_Ret cfg GetAdpfProfile_def split: if_splits)
  have "mUclampMinLow cfg \<le> pidControlVariable (mDescriptor s2) \<and> pidControlVariable (mDescriptor s2) \<le>
      max (mUclampMinHigh cfg) (if heuristic_on cfg \<and> mHeuristicBoostActive s2 then the (mHBoostUclampMin cfg) else 0)"
  proof (cases "mPidOn cfg")
    case False
    with r have "pidControlVariable (mDescriptor s2) = to_i32 (mUclampMinHigh cfg)"
      by (cases s1) (auto simp: report_update_def dest: upd)
    with assms(3-5) show ?thesis by (simp add: i32)
  next
    case True
    obtain t1 n1 where s1: "s1 = (t1, n1)" by fastforce
    with r True have "report_pid E cfg ds (t1, n1) = Ret (STATUS_OK, s2, m2)" by (simp add: report_update_def)
    then obtain t2 out d c v sm where p: "uclampMinCeiling cfg (mHeuristicBoostActive t2) = Ret c"
      "next_min cfg c (pidControlVariable d) out = Some v"
      "updatePidControlVariable E v True (t2\<lparr>mDescriptor := d\<rparr>, n1) = Ret sm"
      "report_gpu E cfg (last ds) sm = Ret (STATUS_OK, s2, m2)"
      by (rule report_pidE)
    have s2: "s2 = fst sm" using p(4) report_gpu_session by (cases sm) fastforce
    note u = upd [OF p(3)]
    have c: "0 \<le> c \<and> c < 2 ^ 31 \<and> c = (if heuristic_on cfg \<and> mHeuristicBoostActive s2
        then the (mHBoostUclampMin cfg) else mUclampMinHigh cfg)"
      using p(1) u assms(3-6) by (auto simp: uclampMinCeiling_def s2 split: if_splits)
    have "v = max (mUclampMinLow cfg) (min c (pidControlVariable d + to_i32 out))"
      using p(2) c assms(3-5) by (auto simp: next_min_def Let_def i32 split: if_splits)
    with u c assms(3-5) show ?thesis by (auto simp: s2)
  qed
  then show ?thesis by (simp add: s')
qed

theorem report_clamps_witness:
  "\<exists>s' m'. PHS_reportActualWorkDuration (sample_env\<lparr>adpf_profile := \<lambda>_. sample_config\<lparr>mPidOn := False\<rparr>\<rparr>) [work 0 1500000]
       (sample_session, sample_psm) = Ret (STATUS_OK, s', m')
     \<and> 0 \<le> pidControlVariable (mDescriptor s') \<and> pidControlVariable (mDescriptor s') \<le> 384"
proof -
  define E where "E = sample_env\<lparr>adpf_profile := \<lambda>_. sample_config\<lparr>mPidOn := False\<rparr>\<rparr>"
  have E: "adpf_profile E h = sample_config\<lparr>mPidOn := False\<rparr>" "clock_now E h = 1000" for h
    by (simp_all add: E_def sample_env_def)
  have "fp_round f64 1000000 = Fin 1000000" "fp_round f64 10000000 = Fin 10000000"
    using f64_round_of_int [of 1000000] f64_round_of_int [of 10000000] by simp_all
  then have stale: "stale_ns (sample_config\<lparr>mPidOn := False\<rparr>) 1000000 = Some 10000000"
    by (simp add: stale_ns_def sample_config_def fp_of_int_def in_signed_def)
  have "\<exists>s' m'. PHS_reportActualWorkDuration E [work 0 1500000] (sample_session, sample_psm) = Ret (STATUS_OK, s', m')"
    by (simp add: PHS_reportActualWorkDuration_def with_lock_def report_frame_def report_update_def isTimeout_def
        GetAdpfProfile_def steady_now_def E sample_session_def sample_desc_def mkAppHintDesc_def work_def stale
        defined_or_def c64_def in_signed_def on_desc_def updatePidControlVariable_def)
      (simp add: sample_config_def)
  then obtain s' m' where r: "PHS_reportActualWorkDuration E [work 0 1500000] (sample_session, sample_psm) = Ret (STATUS_OK, s', m')"
    by blast
  from report_clamps [OF r refl] have "0 \<le> pidControlVariable (mDescriptor s') \<and> pidControlVariable (mDescriptor s') \<le> 384"
    by (simp add: E heuristic_on_def sample_config_def)
  with r show ?thesis unfolding E_def by blast
qed



end
