(* ===== verification/InteractionHandler.thy ===== *)
theory InteractionHandler
  imports AdpfEnv
begin

text \<open>
  \<^verbatim>\<open>power-libperfmgr/disp-power/InteractionHandler.{h,cpp}\<close>: the boost during touch interaction.
  It is held from the first touch until the display is idle or the duration has passed.

  The handler is a state machine driven by the callers of \<open>Acquire\<close> and by one thread,
  \<open>Routine\<close>. Each section under \<open>mLock\<close> is one function, and \<open>ih_step\<close> interleaves them; the
  phase says where the thread is between two sections. The event file descriptor is the
  counter the kernel keeps for it. Waiting for the display may end at any time.
\<close>

section \<open>Definitions\<close>

datatype InteractionState =
    INTERACTION_STATE_UNINITIALIZED
  | INTERACTION_STATE_IDLE
  | INTERACTION_STATE_INTERACTION
  | INTERACTION_STATE_WAITING

record timespec =
  tv_sec :: int
  tv_nsec :: int

record IH =
  mState :: InteractionState
  mIdleFd :: int
  mEventFd :: int
  event_count :: nat
  mDurationMs :: int
  mLastTimespec :: timespec

text \<open>The properties read at start-up, as \<open>uint32_t\<close>, and what opening the files gives.\<close>

record ih_env =
  kDisplayIdleSupport :: bool
  kWaitMs :: int
  kMinDurationMs :: int
  kMaxDurationMs :: int
  kDurationOffsetMs :: int
  idle_open :: "string \<Rightarrow> int"
  event_open :: int

definition kDispIdlePath :: "string list" where
  "kDispIdlePath = [''/sys/class/drm/card0/device/idle_state'', ''/sys/class/graphics/fb0/idle_state'',
     ''/sys/class/graphics/fb0/device/idle_state'']"

text \<open>The difference in milliseconds, as \<open>size_t\<close>.\<close>

definition CalcTimespecDiffMs :: "timespec \<Rightarrow> timespec \<Rightarrow> int" where
  "CalcTimespecDiffMs start stop =
     ((tv_sec stop - tv_sec start) * 1000 + (tv_nsec stop - tv_nsec start) sdiv 1000000) mod 2 ^ 64"

fun FbIdleOpen_from :: "(string \<Rightarrow> int) \<Rightarrow> string list \<Rightarrow> int" where
  "FbIdleOpen_from opn [] = - 1"
| "FbIdleOpen_from opn (p # ps) = (if opn p \<ge> 0 then opn p else FbIdleOpen_from opn ps)"

definition FbIdleOpen :: "ih_env \<Rightarrow> int" where
  "FbIdleOpen E = FbIdleOpen_from (idle_open E) kDispIdlePath"

definition IH_new :: IH where
  "IH_new = \<lparr>mState = INTERACTION_STATE_UNINITIALIZED, mIdleFd = 0, mEventFd = 0, event_count = 0, mDurationMs = 0,
     mLastTimespec = \<lparr>tv_sec = 0, tv_nsec = 0\<rparr>\<rparr>"

definition IH_Init :: "ih_env \<Rightarrow> IH \<Rightarrow> bool \<times> IH" where
  "IH_Init E h =
     (if mState h \<noteq> INTERACTION_STATE_UNINITIALIZED then (True, h)
      else
        let fd = FbIdleOpen E in
        if fd < 0 then (False, h)
        else
          let h1 = h\<lparr>mIdleFd := fd, mEventFd := event_open E, event_count := 0\<rparr> in
          if mEventFd h1 < 0 then (False, h1)
          else (True, h1\<lparr>mState := INTERACTION_STATE_IDLE\<rparr>))"

definition PerfLock :: "effect list" where
  "PerfLock = [DoHint ''INTERACTION'']"

definition PerfRel :: "effect list" where
  "PerfRel = [EndHint ''INTERACTION'']"

definition AbortWaitLocked :: "IH \<Rightarrow> IH" where
  "AbortWaitLocked h = h\<lparr>event_count := Suc (event_count h)\<rparr>"

text \<open>The part of \<open>Exit\<close> under the lock; then it waits for the thread and closes the files.\<close>

definition IH_Exit :: "IH \<Rightarrow> IH" where
  "IH_Exit h =
     (if mState h = INTERACTION_STATE_UNINITIALIZED then h
      else (AbortWaitLocked h)\<lparr>mState := INTERACTION_STATE_UNINITIALIZED\<rparr>)"

text \<open>
  The duration a hint is given: the sum and the comparisons are unsigned, the result is an
  \<open>int\<close> again.
\<close>

definition finalDuration :: "ih_env \<Rightarrow> int \<Rightarrow> int" where
  "finalDuration E dur =
     (let inputDuration = to_i32 (dur + kDurationOffsetMs E);
          u = inputDuration mod 2 ^ 32
      in if u > kMaxDurationMs E then to_i32 (kMaxDurationMs E)
         else if u > kMinDurationMs E then inputDuration
         else to_i32 (kMinDurationMs E))"

definition IH_covers :: "IH \<Rightarrow> timespec \<Rightarrow> int \<Rightarrow> bool" where
  "IH_covers h now d \<longleftrightarrow>
     mState h \<noteq> INTERACTION_STATE_IDLE \<and> d \<le> mDurationMs h
     \<and> CalcTimespecDiffMs (mLastTimespec h) now \<le> (mDurationMs h - d) mod 2 ^ 64"

definition IH_Acquire :: "ih_env \<Rightarrow> timespec \<Rightarrow> int \<Rightarrow> IH \<Rightarrow> effect list \<times> IH" where
  "IH_Acquire E now dur h =
     (let d = finalDuration E dur in
      if \<not> kDisplayIdleSupport E \<or> mState h = INTERACTION_STATE_UNINITIALIZED
      then ([DoHintFor ''INTERACTION'' d], h)
      else if IH_covers h now d then ([], h)
      else
        let h1 = h\<lparr>mLastTimespec := now, mDurationMs := d\<rparr>;
            (es, h2) = (if mState h1 = INTERACTION_STATE_WAITING then ([], AbortWaitLocked h1)
                        else if mState h1 = INTERACTION_STATE_IDLE then (PerfLock, h1)
                        else ([], h1))
        in (es, h2\<lparr>mState := INTERACTION_STATE_INTERACTION\<rparr>))"

definition IH_Release :: "IH \<Rightarrow> effect list \<times> IH" where
  "IH_Release h =
     (if mState h = INTERACTION_STATE_WAITING then (PerfRel, h\<lparr>mState := INTERACTION_STATE_IDLE\<rparr>)
      else ([], h\<lparr>event_count := 0\<rparr>))"

text \<open>
  \<open>WaitForIdle\<close>, given what the two polls and the read of the idle file return. When the
  read fails, the comparison is with an uninitialised buffer.
\<close>

datatype wait_end = WaitAborted | PollError | UnexpectedEof | AlreadyIdle | TimedOut | IdleDetected | WaitUndefined

definition WaitForIdle :: "int \<Rightarrow> int \<times> string \<Rightarrow> int \<Rightarrow> bool \<Rightarrow> wait_end" where
  "WaitForIdle poll1 idle_data poll2 aborted =
     (if poll1 > 0 then WaitAborted
      else if poll1 < 0 then PollError
      else if fst idle_data = 0 then UnexpectedEof
      else if fst idle_data < 0 then WaitUndefined
      else if take 4 (snd idle_data) = ''idle'' then AlreadyIdle
      else if poll2 < 0 then PollError
      else if poll2 = 0 then TimedOut
      else if aborted then WaitAborted
      else IdleDetected)"

subsection \<open>The thread\<close>

datatype phase = Top | InWait | Releasing | Gone

record ih_sys =
  handler :: IH
  phase :: phase
  hints :: "effect list"

text \<open>The start of a turn of \<open>Routine\<close>, once the condition holds.\<close>

definition Routine_enter :: "ih_sys \<Rightarrow> ih_sys" where
  "Routine_enter s =
     (if mState (handler s) = INTERACTION_STATE_UNINITIALIZED then s\<lparr>phase := Gone\<rparr>
      else s\<lparr>handler := (handler s)\<lparr>mState := INTERACTION_STATE_WAITING\<rparr>, phase := InWait\<rparr>)"

definition Routine_release :: "ih_sys \<Rightarrow> ih_sys" where
  "Routine_release s =
     (let (es, h) = IH_Release (handler s) in s\<lparr>handler := h, phase := Top, hints := hints s @ es\<rparr>)"

definition call_Acquire :: "ih_env \<Rightarrow> timespec \<Rightarrow> int \<Rightarrow> ih_sys \<Rightarrow> ih_sys" where
  "call_Acquire E now dur s =
     (let (es, h) = IH_Acquire E now dur (handler s) in s\<lparr>handler := h, hints := hints s @ es\<rparr>)"

inductive ih_step :: "ih_env \<Rightarrow> ih_sys \<Rightarrow> ih_sys \<Rightarrow> bool" for E :: ih_env where
  acquire: "ih_step E s (call_Acquire E now dur s)"
| exit: "ih_step E s (s\<lparr>handler := IH_Exit (handler s)\<rparr>)"
| enter: "phase s = Top \<Longrightarrow> mState (handler s) \<noteq> INTERACTION_STATE_IDLE \<Longrightarrow> ih_step E s (Routine_enter s)"
| wait_over: "phase s = InWait \<Longrightarrow> ih_step E s (s\<lparr>phase := Releasing\<rparr>)"
| release: "phase s = Releasing \<Longrightarrow> ih_step E s (Routine_release s)"

definition ih_start :: "ih_env \<Rightarrow> ih_sys \<Rightarrow> bool" where
  "ih_start E s \<longleftrightarrow> (\<exists>h. IH_Init E IH_new = (True, h) \<and> s = \<lparr>handler = h, phase = Top, hints = []\<rparr>)"

text \<open>The thread alone, running one step.\<close>

definition run_thread :: "ih_sys \<Rightarrow> ih_sys" where
  "run_thread s =
     (case phase s of
        Top \<Rightarrow> if mState (handler s) = INTERACTION_STATE_IDLE then s else Routine_enter s
      | InWait \<Rightarrow> s\<lparr>phase := Releasing\<rparr>
      | Releasing \<Rightarrow> Routine_release s
      | Gone \<Rightarrow> s)"

subsection \<open>Specification\<close>

text \<open>
  The lock on the hint as the hint manager sees it: \<open>Some b\<close> if locks and releases have
  alternated so far, and then whether it is held.
\<close>

fun lock_state :: "effect list \<Rightarrow> bool \<Rightarrow> bool option" where
  "lock_state [] b = Some b"
| "lock_state (e # es) b =
     (if e = DoHint ''INTERACTION'' then if b then None else lock_state es True
      else if e = EndHint ''INTERACTION'' then if b then lock_state es False else None
      else lock_state es b)"

definition boosted :: "IH \<Rightarrow> bool" where
  "boosted h \<longleftrightarrow> mState h = INTERACTION_STATE_INTERACTION \<or> mState h = INTERACTION_STATE_WAITING"

definition ih_inv :: "ih_sys \<Rightarrow> bool" where
  "ih_inv s \<longleftrightarrow>
     (mState (handler s) = INTERACTION_STATE_UNINITIALIZED \<and> lock_state (hints s) False \<noteq> None) \<or>
     (mState (handler s) \<noteq> INTERACTION_STATE_UNINITIALIZED
      \<and> lock_state (hints s) False = Some (boosted (handler s))
      \<and> phase s \<noteq> Gone
      \<and> (phase s = Top \<longrightarrow> mState (handler s) \<noteq> INTERACTION_STATE_WAITING \<and> event_count (handler s) = 0)
      \<and> (phase s \<noteq> Top \<longrightarrow> mState (handler s) \<noteq> INTERACTION_STATE_IDLE)
      \<and> (mState (handler s) = INTERACTION_STATE_WAITING \<longrightarrow> event_count (handler s) = 0))"

definition sample_ih :: ih_env where
  "sample_ih = \<lparr>kDisplayIdleSupport = True, kWaitMs = 100, kMinDurationMs = 1400, kMaxDurationMs = 5650,
     kDurationOffsetMs = 650, idle_open = (\<lambda>_. 3), event_open = 4\<rparr>"

definition sample_ih_sys :: ih_sys where
  "sample_ih_sys = \<lparr>handler = snd (IH_Init sample_ih IH_new), phase = Top, hints = []\<rparr>"

section \<open>The invariant\<close>

lemma lock_state_append:
  "lock_state (es @ fs) b = (case lock_state es b of None \<Rightarrow> None | Some c \<Rightarrow> lock_state fs c)"
  by (induction es arbitrary: b) auto

lemma ih_inv_start: "ih_start E s \<Longrightarrow> ih_inv s"
  by (auto simp: ih_start_def IH_Init_def IH_new_def Let_def ih_inv_def boosted_def split: if_splits)

lemma ih_inv_acquire: "ih_inv s \<Longrightarrow> ih_inv (call_Acquire E now dur s)"
  by (cases "mState (handler s)")
    (auto simp: ih_inv_def call_Acquire_def IH_Acquire_def Let_def AbortWaitLocked_def PerfLock_def boosted_def
      lock_state_append split: option.splits)

lemma ih_inv_exit: "ih_inv s \<Longrightarrow> ih_inv (s\<lparr>handler := IH_Exit (handler s)\<rparr>)"
  by (auto simp: ih_inv_def IH_Exit_def AbortWaitLocked_def)

lemma ih_inv_thread:
  assumes "ih_inv s"
  shows "phase s = Top \<Longrightarrow> mState (handler s) \<noteq> INTERACTION_STATE_IDLE \<Longrightarrow> ih_inv (Routine_enter s)"
    "phase s = InWait \<Longrightarrow> ih_inv (s\<lparr>phase := Releasing\<rparr>)"
    "phase s = Releasing \<Longrightarrow> ih_inv (Routine_release s)"
  using assms
  by (cases "mState (handler s)";
      auto simp: ih_inv_def Routine_enter_def Routine_release_def IH_Release_def PerfRel_def boosted_def
        lock_state_append)+

lemma ih_inv_step: "ih_inv s \<Longrightarrow> ih_step E s t \<Longrightarrow> ih_inv t"
  by (erule ih_step.cases) (auto intro: ih_inv_acquire ih_inv_exit ih_inv_thread)

interpretation interaction: invariant_of "ih_start E" "ih_step E" ih_inv for E
  by unfold_locales (auto intro: ih_inv_start ih_inv_step)

section \<open>Progress\<close>

text \<open>Where the thread is, as the number of its own steps until it is idle.\<close>

lemma run_thread_idle:
  assumes inv: "ih_inv s" and init: "mState (handler s) \<noteq> INTERACTION_STATE_UNINITIALIZED"
  shows "mState (handler ((run_thread ^^ 5) s)) = INTERACTION_STATE_IDLE
    \<and> lock_state (hints ((run_thread ^^ 5) s)) False = Some False"
proof -
  have ls: "lock_state (hints s) False = Some (boosted (handler s))" using inv init by (simp add: ih_inv_def)
  have five: "(run_thread ^^ 5) s = run_thread (run_thread (run_thread (run_thread (run_thread s))))"
    by (simp add: eval_nat_numeral)
  consider "phase s = Top" "mState (handler s) = INTERACTION_STATE_IDLE"
    | "phase s = Top" "mState (handler s) = INTERACTION_STATE_INTERACTION"
    | "phase s = InWait" "mState (handler s) = INTERACTION_STATE_WAITING"
    | "phase s = InWait" "mState (handler s) = INTERACTION_STATE_INTERACTION"
    | "phase s = Releasing" "mState (handler s) = INTERACTION_STATE_WAITING"
    | "phase s = Releasing" "mState (handler s) = INTERACTION_STATE_INTERACTION"
    using inv init by (cases "phase s"; cases "mState (handler s)") (auto simp: ih_inv_def)
  then show ?thesis
    using ls unfolding five
    by cases (simp_all add: run_thread_def Routine_enter_def Routine_release_def IH_Release_def PerfRel_def
        boosted_def lock_state_append)
qed

lemma negative_mod:
  fixes i :: int
  assumes "- (2 ^ 31) \<le> i" and "i < 0"
  shows "i mod 2 ^ 32 = i + 2 ^ 32"
proof -
  have "i mod 2 ^ 32 = (i + 2 ^ 32) mod 2 ^ 32" by simp
  also have "\<dots> = i + 2 ^ 32" by (rule mod_pos_pos_trivial) (use assms in simp_all)
  finally show ?thesis .
qed

lemma finalDuration_range:
  assumes "0 \<le> kMinDurationMs E" "kMinDurationMs E \<le> kMaxDurationMs E" "kMaxDurationMs E < 2 ^ 31"
  shows "kMinDurationMs E \<le> finalDuration E dur \<and> finalDuration E dur \<le> kMaxDurationMs E"
proof -
  let ?i = "to_i32 (dur + kDurationOffsetMs E)"
  have i: "to_i32 (kMaxDurationMs E) = kMaxDurationMs E" "to_i32 (kMinDurationMs E) = kMinDurationMs E"
    using assms by (simp_all add: to_signed_id in_signed_def)
  have r: "in_signed 32 ?i" by (rule to_signed_range) simp
  then have "?i mod 2 ^ 32 = ?i" if "?i mod 2 ^ 32 \<le> kMaxDurationMs E"
    using that assms(3) negative_mod [of ?i] by (cases "0 \<le> ?i") (auto simp: in_signed_def)
  with i assms show ?thesis by (auto simp: finalDuration_def Let_def)
qed

section \<open>Properties\<close>


lemma sample_ih_reach: "reach (ih_start sample_ih) (ih_step sample_ih) sample_ih_sys"
  by (rule reach_init) (simp add: ih_start_def sample_ih_sys_def sample_ih_def IH_Init_def IH_new_def FbIdleOpen_def
      kDispIdlePath_def)

lemma sample_ih_touched:
  "reach (ih_start sample_ih) (ih_step sample_ih)
     (Routine_enter (call_Acquire sample_ih \<lparr>tv_sec = 5, tv_nsec = 0\<rparr> 0 sample_ih_sys))"
proof -
  let ?s = "call_Acquire sample_ih \<lparr>tv_sec = 5, tv_nsec = 0\<rparr> 0 sample_ih_sys"
  have "phase ?s = Top" "mState (handler ?s) \<noteq> INTERACTION_STATE_IDLE" by code_simp+
  with reach_step [OF sample_ih_reach ih_step.acquire] show ?thesis by (blast intro: reach_step ih_step.enter)
qed


text \<open>
  C24: The boost always ends: from any reachable state before \<open>Exit\<close>, five steps of the thread
  without further calls lead to the idle state with the hint released.
\<close>
theorem interaction_ends:
  assumes "reach (ih_start E) (ih_step E) s" and "mState (handler s) \<noteq> INTERACTION_STATE_UNINITIALIZED"
  shows "mState (handler ((run_thread ^^ 5) s)) = INTERACTION_STATE_IDLE
    \<and> lock_state (hints ((run_thread ^^ 5) s)) False = Some False"
  using interaction.reach_inv [OF assms(1)] assms(2) by (rule run_thread_idle)

theorem interaction_ends_witness:
  "mState (handler ((run_thread ^^ 5) (Routine_enter
     (call_Acquire sample_ih \<lparr>tv_sec = 5, tv_nsec = 0\<rparr> 0 sample_ih_sys)))) = INTERACTION_STATE_IDLE"
proof -
  let ?s = "Routine_enter (call_Acquire sample_ih \<lparr>tv_sec = 5, tv_nsec = 0\<rparr> 0 sample_ih_sys)"
  have "mState (handler ?s) \<noteq> INTERACTION_STATE_UNINITIALIZED" by code_simp
  with interaction_ends [OF sample_ih_touched] show ?thesis by simp
qed

text \<open>
  \<open>Exit\<close> while the boost is on leaves the hint held for good: the thread finds the handler
  uninitialised, only clears the event counter, and ends.
\<close>
theorem exit_leaks_hint:
  "\<exists>s. reach (ih_start sample_ih) (ih_step sample_ih) s \<and> phase s = Gone
     \<and> lock_state (hints s) False = Some True"
proof -
  let ?s0 = "Routine_enter (call_Acquire sample_ih \<lparr>tv_sec = 5, tv_nsec = 0\<rparr> 0 sample_ih_sys)"
  let ?s1 = "?s0\<lparr>handler := IH_Exit (handler ?s0)\<rparr>"
  let ?s2 = "?s1\<lparr>phase := Releasing\<rparr>"
  let ?s4 = "Routine_enter (Routine_release ?s2)"
  have p: "phase ?s1 = InWait" "phase ?s2 = Releasing" "phase (Routine_release ?s2) = Top"
      "mState (handler (Routine_release ?s2)) \<noteq> INTERACTION_STATE_IDLE" by code_simp+
  have "reach (ih_start sample_ih) (ih_step sample_ih) ?s1" by (rule reach_step [OF sample_ih_touched ih_step.exit])
  then have "reach (ih_start sample_ih) (ih_step sample_ih) ?s2" using ih_step.wait_over [OF p(1)] by (rule reach_step)
  then have "reach (ih_start sample_ih) (ih_step sample_ih) (Routine_release ?s2)"
    using ih_step.release [OF p(2)] by (rule reach_step)
  then have "reach (ih_start sample_ih) (ih_step sample_ih) ?s4" using ih_step.enter [OF p(3,4)] by (rule reach_step)
  moreover have "phase ?s4 = Gone" "lock_state (hints ?s4) False = Some True" by code_simp+
  ultimately show ?thesis by blast
qed

text \<open>
  A negative request gets the longest boost: the sum is compared as an unsigned number, so a
  duration below minus the offset counts as more than the maximum.
\<close>
theorem negative_duration_is_longest:
  assumes "dur + kDurationOffsetMs E < 0" "- (2 ^ 31) \<le> dur + kDurationOffsetMs E"
    and "0 \<le> kMaxDurationMs E" "kMaxDurationMs E < 2 ^ 31"
  shows "finalDuration E dur = kMaxDurationMs E"
proof -
  let ?i = "dur + kDurationOffsetMs E"
  have i: "to_i32 ?i = ?i" "to_i32 (kMaxDurationMs E) = kMaxDurationMs E"
    using assms by (simp_all add: to_signed_id in_signed_def)
  have "?i mod 2 ^ 32 = ?i + 2 ^ 32"
    using assms(1,2) by (intro negative_mod)
  with i assms show ?thesis by (simp add: finalDuration_def Let_def)
qed

end
