(* ===== verification/HintLog.thy ===== *)
theory HintLog
  imports AdpfEnv
begin

text \<open>
  The hints that are on after a sequence of effects, for the two power services: a hint is
  started by \<open>DoHint\<close> and ended by \<open>EndHint\<close>; one with a duration ends by itself.
\<close>

section \<open>Definitions\<close>

fun hint_on :: "string \<Rightarrow> effect list \<Rightarrow> bool \<Rightarrow> bool" where
  "hint_on name [] b = b"
| "hint_on name (e # es) b =
     hint_on name es (if e = DoHint name then True else if e = EndHint name then False else b)"

section \<open>Lemmas\<close>

lemma hint_on_append: "hint_on name (es @ fs) b = hint_on name fs (hint_on name es b)"
  by (induction es arbitrary: b) auto

lemma hint_on_other: "(\<And>e. e \<in> set es \<Longrightarrow> e \<noteq> DoHint name \<and> e \<noteq> EndHint name) \<Longrightarrow> hint_on name es b = b"
  by (induction es arbitrary: b) auto

end
