(* ===== verification/SessionDump.thy ===== *)
theory SessionDump
  imports PowerSessionManager Decimal
begin

text \<open>
  The listing of the sessions that \<open>PowerSessionManager::dumpToFd\<close> writes, with
  \<open>SessionValueEntry::dump\<close>. The entry's votes pointer is never null in the model (every
  entry is made with a votes object), so the \<open>votes nullptr\<close> branch has no counterpart.
  The lemmas show that the reference count of a thread is printed for every thread and is
  the number of links to it.
\<close>

subsection \<open>The text of one session\<close>

text \<open>\<open>SessionValueEntry::dump\<close>; the default \<open>UclampRange\<close> is the full one.\<close>
definition SessionValueEntry_dump :: "SessionTaskMap \<Rightarrow> time \<Rightarrow> SessionValueEntry \<Rightarrow> string" where
  "SessionValueEntry_dump m timeNow e =
     (let r = getUclampRange (votesStore m (votes e)) UclampRange_default timeNow in
      ''ID.Min.Act('' @ idString e @ '', '' @ show_int (uclampMin r) @ ''-'' @ show_int (uclampMax r)
      @ '', '' @ (if isActive e then ''1'' else ''0''))"

text \<open>The loop over the threads of a session: \<open>tasksLen\<close> starts as their number.\<close>
fun dump_tasks :: "SessionTaskMap \<Rightarrow> nat \<Rightarrow> tid list \<Rightarrow> string" where
  "dump_tasks m tasksLen [] = []"
| "dump_tasks m tasksLen (t # ts) =
     (let ids = STM_getSessionIds t m in
      show_int t @ '':'' @ (if ids \<noteq> [] then show_nat (length ids) else [])
      @ (if tasksLen > 0 then '', '' @ dump_tasks m (tasksLen - 1) ts else dump_tasks m tasksLen ts))"

definition dump_session :: "SessionTaskMap \<Rightarrow> time \<Rightarrow> SessionValueEntry \<times> tid list \<Rightarrow> string" where
  "dump_session m timeNow = (\<lambda>(e, ts).
     SessionValueEntry_dump m timeNow e @ '' Tid:Ref['' @ dump_tasks m (length ts) ts @ '']\<newline>'')"

subsection \<open>The listing\<close>

definition dump_begin :: string where
  "dump_begin = ''========== Begin PowerSessionManager ADPF list ==========\<newline>''"

definition dump_end :: string where
  "dump_end = ''========== End PowerSessionManager ADPF list ==========\<newline>''"

text \<open>The callback of \<open>forEachSessionValTasks\<close>: the clock is read once for each session.\<close>
fun dump_sessions :: "env \<Rightarrow> (sid \<times> SessionValueEntry \<times> tid list) list \<Rightarrow> PSM \<Rightarrow> string \<times> PSM" where
  "dump_sessions E [] s = ([], s)"
| "dump_sessions E ((i, v) # vs) s =
     (let (timeNow, s1) = steady_now E s;
          line = dump_session (mSessionTaskMap s) timeNow v;
          (rest, s2) = dump_sessions E vs s1
      in (line @ rest, s2))"

definition dumpToFd :: "env \<Rightarrow> PSM \<Rightarrow> string \<times> PSM" where
  "dumpToFd E s =
     (let (txt, s1) = dump_sessions E (STM_forEachSessionValTasks (mSessionTaskMap s)) s
      in (dump_begin @ txt @ dump_end, s1))"

text \<open>How many links there are to a thread, over all sessions.\<close>
definition links_to :: "SessionTaskMap \<Rightarrow> tid \<Rightarrow> nat" where
  "links_to m t = (\<Sum>s\<in>dom (STM_abs m). count_list (STM_getTaskIds s m) t)"

subsection \<open>What is printed\<close>

text \<open>The counter never reaches zero before the last thread, so every thread is followed by
  a separator, the last one included.\<close>
lemma dump_tasks_all:
  "length ts \<le> n \<Longrightarrow> dump_tasks m n ts =
     concat (map (\<lambda>t. show_int t @ '':'' @
       (if STM_getSessionIds t m \<noteq> [] then show_nat (length (STM_getSessionIds t m)) else []) @ '', '') ts)"
  by (induction ts arbitrary: n) (auto simp: Let_def)

text \<open>The dump changes nothing but the number of clock reads.\<close>
lemma dump_sessions_state:
  "snd (dump_sessions E vs s) = s\<lparr>effects := effects s @ replicate (length vs) ClockRead\<rparr>"
proof (induction E vs s rule: dump_sessions.induct)
  case (2 E i v vs s)
  from 2 [OF refl surjective_pairing [symmetric] refl] show ?case
    by (simp add: steady_now_def emit_def Let_def case_prod_beta)
qed simp

lemma finite_dom_STM_abs [simp]: "finite (dom (STM_abs m))"
proof (rule finite_subset)
  show "dom (STM_abs m) \<subseteq> fst ` set (mSessions m)"
    by (auto simp: STM_abs_def dom_map_of_conv_image_fst [symmetric])
qed simp

lemma length_getSessionIds:
  assumes "STM_wf m"
  shows "length (STM_getSessionIds t m) = links_to m t"
proof -
  have "set (STM_getSessionIds t m) \<subseteq> dom (STM_abs m)"
  proof
    fix s assume "s \<in> set (STM_getSessionIds t m)"
    then have "count_list (STM_getSessionIds t m) s \<noteq> 0" by (simp add: count_list_0_iff)
    then have "count_list (STM_getTaskIds s m) t \<noteq> 0"
      by (simp only: getSessionIds_getTaskIds [OF assms] not_False_eq_True)
    then show "s \<in> dom (STM_abs m)"
      by (auto simp: STM_getTaskIds_def STM_abs_def split: option.splits)
  qed
  from sum_count_set [OF this] show ?thesis
    by (simp add: links_to_def getSessionIds_getTaskIds [OF assms])
qed

lemma linked_positive:
  assumes "STM_abs m s = Some (e, us)" "t \<in> set us"
  shows "0 < links_to m t"
proof -
  have "STM_getTaskIds s m = us"
    using assms(1) by (auto simp: STM_getTaskIds_def STM_abs_def split: option.splits)
  with assms(2) have "count_list (STM_getTaskIds s m) t \<noteq> 0" by (simp add: count_list_0_iff)
  moreover have "s \<in> dom (STM_abs m)" using assms(1) by auto
  ultimately show ?thesis by (simp add: links_to_def sum_pos2)
qed

text \<open>
  In a well-formed map the dump of a session lists each of its threads with a positive
  reference count, which is the number of links to the thread over all sessions. The branch
  that prints no count is never taken, and a separator follows every thread, also the last.
\<close>
theorem dump_counts_links:
  assumes "STM_wf m" "STM_abs m s = Some (e, us)"
  shows "dump_tasks m (length us) us =
      concat (map (\<lambda>t. show_int t @ '':'' @ show_nat (links_to m t) @ '', '') us)
    \<and> (\<forall>t\<in>set us. 0 < links_to m t)"
proof -
  have pos: "0 < links_to m t" if "t \<in> set us" for t using linked_positive [OF assms(2) that] .
  then have "STM_getSessionIds t m \<noteq> []" if "t \<in> set us" for t
    using that length_getSessionIds [OF assms(1), of t] by (metis length_0_conv less_numeral_extra(3))
  with pos show ?thesis
    by (auto simp: dump_tasks_all length_getSessionIds [OF assms(1)] intro!: arg_cong [where f = concat])
qed

theorem dump_counts_links_witness:
  "STM_wf sample_map \<and> links_to sample_map 7 = 3 \<and> 0 < links_to sample_map 9
   \<and> dump_tasks sample_map 3 [7, 7, 9] = ''7:3, 7:3, 9:1, ''"
proof -
  have "STM_getTaskIds 2 sample_map = [7, 7, 9]" by code_simp
  then obtain e where e: "STM_abs sample_map 2 = Some (e, [7, 7, 9])"
    by (auto simp: STM_getTaskIds_def STM_abs_def split: option.splits)
  have "length (STM_getSessionIds 7 sample_map) = 3" "length (STM_getSessionIds 9 sample_map) = 1"
    by code_simp+
  then have "links_to sample_map 7 = 3" "links_to sample_map 9 = 1"
    by (simp_all add: length_getSessionIds [OF sample_map_wf])
  moreover have "show_int 7 = ''7''" "show_int 9 = ''9''" "show_nat 3 = ''3''" "show_nat 1 = ''1''"
    by code_simp+
  ultimately show ?thesis
    using dump_counts_links [OF sample_map_wf e] sample_map_wf by simp
qed

text \<open>
  The dump leaves the manager as it was: only the clock has been read, once for each session.
\<close>
theorem dumpToFd_readonly:
  "snd (dumpToFd E s) =
     s\<lparr>effects := effects s @ replicate (length (mSessions (mSessionTaskMap s))) ClockRead\<rparr>"
  by (simp add: dumpToFd_def case_prod_beta Let_def dump_sessions_state STM_forEachSessionValTasks_def)

end
