(* ===== verification/PowerAidl.thy ===== *)
theory PowerAidl
  imports PowerHintSession InteractionHandler HintLog SessionDump
begin

text \<open>
  \<^verbatim>\<open>power-libperfmgr/aidl/Power.{h,cpp}\<close>, \<^verbatim>\<open>PowerExt.{h,cpp}\<close> and
  \<^verbatim>\<open>power-libperfmgr/disp-power/DisplayLowPower.{h,cpp}\<close>: the service object, its extension,
  and the socket through which the display is told to save power.

  The hints sent are the effects of the session manager, which all parts of the service
  share. The AIDL enumerations and their \<open>toString\<close> are generated code: the enumerators the
  code names are constructors, their values and names come from \<open>power_env\<close>.
\<close>

section \<open>Definitions\<close>

subsection \<open>Display low power\<close>

record DisplayLowPower =
  mPpsSocket :: int
  mFossStatus :: bool

definition DisplayLowPower_new :: DisplayLowPower where
  "DisplayLowPower_new = \<lparr>mPpsSocket = - 1, mFossStatus = False\<rparr>"

definition ConnectPpsDaemon :: "int \<Rightarrow> DisplayLowPower \<Rightarrow> DisplayLowPower" where
  "ConnectPpsDaemon fd d = d\<lparr>mPpsSocket := fd\<rparr>"

definition DisplayLowPower_Init :: "int \<Rightarrow> DisplayLowPower \<Rightarrow> DisplayLowPower" where
  "DisplayLowPower_Init fd d = ConnectPpsDaemon fd d"

text \<open>\<open>written\<close> is the answer of \<open>write\<close> to the command.\<close>

definition SendPpsCommand :: "(string \<Rightarrow> int) \<Rightarrow> string \<Rightarrow> int" where
  "SendPpsCommand written cmd = (if written cmd < 0 then - 1 else 0)"

definition SetFoss :: "(string \<Rightarrow> int) \<Rightarrow> bool \<Rightarrow> DisplayLowPower \<Rightarrow> string list \<times> DisplayLowPower" where
  "SetFoss written enable d =
     (if mPpsSocket d < 0 \<or> mFossStatus d = enable then ([], d)
      else
        let foss_cmd = (if enable then ''foss:on'' else ''foss:off'')
        in ([foss_cmd], if SendPpsCommand written foss_cmd = 0 then d\<lparr>mFossStatus := enable\<rparr> else d))"

definition SetDisplayLowPower ::
  "(string \<Rightarrow> int) \<Rightarrow> bool \<Rightarrow> DisplayLowPower \<Rightarrow> string list \<times> DisplayLowPower" where
  "SetDisplayLowPower written enable d = SetFoss written enable d"

subsection \<open>State\<close>

datatype Mode = LOW_POWER | SUSTAINED_PERFORMANCE | VR | LAUNCH | OtherMode int

datatype Boost = INTERACTION | OtherBoost int

record power_env =
  mode_str :: "Mode \<Rightarrow> string"
  mode_val :: "Mode \<Rightarrow> int"
  boost_str :: "Boost \<Rightarrow> string"
  boost_val :: "Boost \<Rightarrow> int"
  val_AUTOMOTIVE_PROJECTION :: int
  val_GAME_LOADING :: int
  val_CAMERA_STREAMING_HIGH :: int
  val_CAMERA_SHOT :: int
  adpf_supported :: "string \<Rightarrow> bool"
  pps_written :: "string \<Rightarrow> int"
  prop_state :: string
  prop_audio :: string
  prop_rendering :: string
  interface_version :: int

record Power =
  mDisplayLowPower :: DisplayLowPower
  pps_commands :: "string list"
  mInteractionHandler :: IH
  mVRModeOn :: bool
  mSustainedPerfModeOn :: bool
  mServiceVersion :: int
  psm :: PSM

definition hint :: "effect \<Rightarrow> Power \<Rightarrow> Power" where
  "hint e p = p\<lparr>psm := emit e (psm p)\<rparr>"

definition set_hint :: "string \<Rightarrow> bool \<Rightarrow> Power \<Rightarrow> Power" where
  "set_hint name enabled = hint (if enabled then DoHint name else EndHint name)"

text \<open>The initial modes, from the state property.\<close>

definition Power_init_state :: "string \<Rightarrow> Power \<Rightarrow> Power" where
  "Power_init_state state p =
     (if state = ''SUSTAINED_PERFORMANCE'' then (hint (DoHint ''SUSTAINED_PERFORMANCE'') p)\<lparr>mSustainedPerfModeOn := True\<rparr>
      else if state = ''VR'' then (hint (DoHint state) p)\<lparr>mVRModeOn := True\<rparr>
      else if state = ''VR_SUSTAINED_PERFORMANCE''
      then (hint (DoHint ''VR_SUSTAINED_PERFORMANCE'') p)\<lparr>mSustainedPerfModeOn := True, mVRModeOn := True\<rparr>
      else p)"

definition Power_new :: "ih_env \<Rightarrow> power_env \<Rightarrow> DisplayLowPower \<Rightarrow> PSM \<Rightarrow> Power" where
  "Power_new H P dlpw m =
     (let p = \<lparr>mDisplayLowPower = dlpw, pps_commands = [], mInteractionHandler = snd (IH_Init H IH_new),
               mVRModeOn = False, mSustainedPerfModeOn = False, mServiceVersion = 0, psm = m\<rparr>;
          p1 = Power_init_state (prop_state P) p;
          p2 = (if prop_audio P = ''AUDIO_STREAMING_LOW_LATENCY'' then hint (DoHint (prop_audio P)) p1 else p1);
          p3 = (if prop_rendering P = ''EXPENSIVE_RENDERING'' then hint (DoHint ''EXPENSIVE_RENDERING'') p2 else p2)
      in p3\<lparr>mServiceVersion := interface_version P\<rparr>)"

subsection \<open>Modes\<close>

text \<open>Whether the profile asks for reports at all.\<close>

definition adpf_reporting :: "env \<Rightarrow> PSM \<Rightarrow> bool" where
  "adpf_reporting E m \<longleftrightarrow> adpf_present E (effects m) \<and> mReportingRateLimitNs (GetAdpfProfile E m) > 0"

definition set_sustained :: "bool \<Rightarrow> Power \<Rightarrow> Power" where
  "set_sustained enabled p =
     (if enabled \<and> \<not> mSustainedPerfModeOn p then
        (if \<not> mVRModeOn p then hint (DoHint ''SUSTAINED_PERFORMANCE'') p
         else hint (DoHint ''VR_SUSTAINED_PERFORMANCE'') (hint (EndHint ''VR'') p))\<lparr>mSustainedPerfModeOn := True\<rparr>
      else if \<not> enabled \<and> mSustainedPerfModeOn p then
        (let p1 = hint (EndHint ''SUSTAINED_PERFORMANCE'') (hint (EndHint ''VR_SUSTAINED_PERFORMANCE'') p)
         in if mVRModeOn p1 then hint (DoHint ''VR'') p1 else p1)\<lparr>mSustainedPerfModeOn := False\<rparr>
      else p)"

definition set_vr :: "bool \<Rightarrow> Power \<Rightarrow> Power" where
  "set_vr enabled p =
     (if enabled \<and> \<not> mVRModeOn p then
        (if \<not> mSustainedPerfModeOn p then hint (DoHint ''VR'') p
         else hint (DoHint ''VR_SUSTAINED_PERFORMANCE'') (hint (EndHint ''SUSTAINED_PERFORMANCE'') p))\<lparr>mVRModeOn := True\<rparr>
      else if \<not> enabled \<and> mVRModeOn p then
        (let p1 = hint (EndHint ''VR'') (hint (EndHint ''VR_SUSTAINED_PERFORMANCE'') p)
         in if mSustainedPerfModeOn p1 then hint (DoHint ''SUSTAINED_PERFORMANCE'') p1 else p1)\<lparr>mVRModeOn := False\<rparr>
      else p)"

definition switch_mode :: "power_env \<Rightarrow> Mode \<Rightarrow> bool \<Rightarrow> Power \<Rightarrow> Power" where
  "switch_mode P mode enabled p =
     (case mode of
        LOW_POWER \<Rightarrow>
          let (cmds, d) = SetDisplayLowPower (pps_written P) enabled (mDisplayLowPower p)
          in set_hint (mode_str P mode) enabled (p\<lparr>mDisplayLowPower := d, pps_commands := pps_commands p @ cmds\<rparr>)
      | SUSTAINED_PERFORMANCE \<Rightarrow> set_sustained enabled p
      | VR \<Rightarrow> set_vr enabled p
      | LAUNCH \<Rightarrow> if mVRModeOn p \<or> mSustainedPerfModeOn p then p else set_hint (mode_str P mode) enabled p
      | OtherMode _ \<Rightarrow> set_hint (mode_str P mode) enabled p)"

definition Power_setMode :: "env \<Rightarrow> power_env \<Rightarrow> Mode \<Rightarrow> bool \<Rightarrow> Power \<Rightarrow> status \<times> Power" where
  "Power_setMode E P mode enabled p =
     (STATUS_OK, switch_mode P mode enabled
        (if adpf_reporting E (psm p) then p\<lparr>psm := updateHintMode E (mode_str P mode) enabled (psm p)\<rparr> else p))"

definition mode_known :: "power_env \<Rightarrow> int \<Rightarrow> Mode \<Rightarrow> bool" where
  "mode_known P version mode \<longleftrightarrow>
     version = 5 \<and> mode_val P mode \<le> val_AUTOMOTIVE_PROJECTION P
     \<or> version \<in> {3, 4, 5} \<and> mode_val P mode \<le> val_GAME_LOADING P
     \<or> version \<in> {1, 2, 3, 4, 5} \<and> mode_val P mode \<le> val_CAMERA_STREAMING_HIGH P"

definition Power_isModeSupported :: "env \<Rightarrow> power_env \<Rightarrow> Mode \<Rightarrow> Power \<Rightarrow> status \<times> bool" where
  "Power_isModeSupported E P mode p =
     (if \<not> mode_known P (mServiceVersion p) mode then (STATUS_OK, False)
      else
        let supported = hint_supported E (effects (psm p)) (mode_str P mode) \<or> mode = LOW_POWER
        in (STATUS_OK, supported \<or> adpf_supported P (mode_str P mode)))"

subsection \<open>Boosts\<close>

definition boost_hint :: "string \<Rightarrow> int \<Rightarrow> Power \<Rightarrow> Power" where
  "boost_hint name durationMs =
     hint (if durationMs > 0 then DoHintFor name durationMs else if durationMs = 0 then DoHint name else EndHint name)"

definition Power_setBoost ::
  "env \<Rightarrow> power_env \<Rightarrow> ih_env \<Rightarrow> timespec \<Rightarrow> Boost \<Rightarrow> int \<Rightarrow> Power \<Rightarrow> status \<times> Power" where
  "Power_setBoost E P H now boost durationMs p =
     (STATUS_OK,
      if mVRModeOn p \<or> mSustainedPerfModeOn p then p
      else case boost of
        INTERACTION \<Rightarrow>
          let (es, h) = IH_Acquire H now durationMs (mInteractionHandler p)
          in (fold hint es p)\<lparr>mInteractionHandler := h\<rparr>
      | OtherBoost _ \<Rightarrow> boost_hint (boost_str P boost) durationMs p)"

definition Power_isBoostSupported :: "env \<Rightarrow> power_env \<Rightarrow> Boost \<Rightarrow> Power \<Rightarrow> status \<times> bool" where
  "Power_isBoostSupported E P boost p =
     (if \<not> (mServiceVersion p \<in> {1, 2, 3, 4, 5} \<and> boost_val P boost \<le> val_CAMERA_SHOT P) then (STATUS_OK, False)
      else (STATUS_OK, hint_supported E (effects (psm p)) (boost_str P boost) \<or> adpf_supported P (boost_str P boost)))"

definition boolToString :: "bool \<Rightarrow> string" where
  "boolToString b = (if b then ''true'' else ''false'')"

definition Power_dump_text :: "bool \<Rightarrow> Power \<Rightarrow> string" where
  "Power_dump_text running p =
     ''HintManager Running: '' @ boolToString running @ ''\<newline>VRMode: '' @ boolToString (mVRModeOn p)
     @ ''\<newline>SustainedPerformanceMode: '' @ boolToString (mSustainedPerfModeOn p) @ ''\<newline>''"

text \<open>What ends up in the file, \<open>nodes\<close> being what \<open>HintManager::DumpToFd\<close> writes: the state of
  the service comes last, though it was read first.\<close>
definition Power_dump :: "env \<Rightarrow> bool \<Rightarrow> string \<Rightarrow> Power \<Rightarrow> string \<times> Power" where
  "Power_dump E running nodes p =
     (let buf = Power_dump_text running p; (sessions, m) = dumpToFd E (psm p)
      in (nodes @ sessions @ buf, p\<lparr>psm := m\<rparr>))"

subsection \<open>The extension\<close>

definition PowerExt_setMode :: "env \<Rightarrow> string \<Rightarrow> bool \<Rightarrow> Power \<Rightarrow> status \<times> Power" where
  "PowerExt_setMode E mode enabled p =
     (let p1 = set_hint mode enabled p
      in (STATUS_OK, if adpf_reporting E (psm p1) then p1\<lparr>psm := updateHintMode E mode enabled (psm p1)\<rparr> else p1))"

definition PowerExt_isModeSupported :: "env \<Rightarrow> power_env \<Rightarrow> string \<Rightarrow> Power \<Rightarrow> status \<times> bool" where
  "PowerExt_isModeSupported E P mode p =
     (STATUS_OK, hint_supported E (effects (psm p)) mode \<or> adpf_supported P mode)"

definition PowerExt_setBoost :: "string \<Rightarrow> int \<Rightarrow> Power \<Rightarrow> status \<times> Power" where
  "PowerExt_setBoost boost durationMs p = (STATUS_OK, boost_hint boost durationMs p)"

definition PowerExt_isBoostSupported :: "env \<Rightarrow> power_env \<Rightarrow> string \<Rightarrow> Power \<Rightarrow> status \<times> bool" where
  "PowerExt_isBoostSupported E P boost p =
     (STATUS_OK, hint_supported E (effects (psm p)) boost \<or> adpf_supported P boost)"

subsection \<open>Hint sessions\<close>

definition getHintSessionPreferredRate :: "env \<Rightarrow> PSM \<Rightarrow> status \<times> int" where
  "getHintSessionPreferredRate E m =
     (let rate = (if adpf_present E (effects m) then mReportingRateLimitNs (GetAdpfProfile E m) else 0)
      in (if rate \<le> 0 then EX_UNSUPPORTED_OPERATION else STATUS_OK, rate))"

text \<open>\<open>object\<close> is the address of the new session, which the manager keeps a weak pointer to.\<close>

definition createHintSessionWithConfig ::
  "env \<Rightarrow> addr \<Rightarrow> int \<Rightarrow> int \<Rightarrow> tid list \<Rightarrow> int \<Rightarrow> int \<Rightarrow> int \<times> PSM
     \<Rightarrow> (status \<times> PHS option \<times> int \<times> PSM) outcome" where
  "createHintSessionWithConfig E object tgid' uid' threadIds durationNs tag = (\<lambda>(counter, m).
     if \<not> adpf_reporting E m then Ret (EX_UNSUPPORTED_OPERATION, None, counter, m)
     else if threadIds = [] then Ret (EX_ILLEGAL_ARGUMENT, None, counter, m)
     else obind (PHS_new E tgid' uid' threadIds durationNs tag (counter, m)) (\<lambda>(s, counter', m').
       Ret (STATUS_OK, Some s, counter', registerSession object (snd (getSessionConfig s)) m')))"

definition createHintSession ::
  "env \<Rightarrow> addr \<Rightarrow> int \<Rightarrow> int \<Rightarrow> int \<Rightarrow> tid list \<Rightarrow> int \<Rightarrow> int \<times> PSM
     \<Rightarrow> (status \<times> PHS option \<times> int \<times> PSM) outcome" where
  "createHintSession E object tagOther tgid' uid' threadIds durationNs =
     createHintSessionWithConfig E object tgid' uid' threadIds durationNs tagOther"

record ChannelConfig =
  readFlagBitmask :: int
  writeFlagBitmask :: int

definition getSessionChannel :: "status \<times> ChannelConfig" where
  "getSessionChannel = (STATUS_OK, \<lparr>readFlagBitmask = 1, writeFlagBitmask = 2\<rparr>)"

definition closeSessionChannel :: status where
  "closeSessionChannel = STATUS_OK"

subsection \<open>Specification\<close>

abbreviation mode_hints :: "string set" where
  "mode_hints \<equiv> {''VR'', ''SUSTAINED_PERFORMANCE'', ''VR_SUSTAINED_PERFORMANCE''}"

text \<open>The two flags and the three hints that stand for them.\<close>

definition modes_agree :: "Power \<Rightarrow> bool" where
  "modes_agree p \<longleftrightarrow>
     (let on = (\<lambda>name. hint_on name (effects (psm p)) False) in
      (on ''VR'' \<longleftrightarrow> mVRModeOn p \<and> \<not> mSustainedPerfModeOn p)
      \<and> (on ''SUSTAINED_PERFORMANCE'' \<longleftrightarrow> mSustainedPerfModeOn p \<and> \<not> mVRModeOn p)
      \<and> (on ''VR_SUSTAINED_PERFORMANCE'' \<longleftrightarrow> mVRModeOn p \<and> mSustainedPerfModeOn p))"

text \<open>The names of the other modes and boosts are not those of the three hints.\<close>

definition names_apart :: "power_env \<Rightarrow> bool" where
  "names_apart P \<longleftrightarrow>
     (\<forall>mode. mode \<noteq> VR \<and> mode \<noteq> SUSTAINED_PERFORMANCE \<longrightarrow> mode_str P mode \<notin> mode_hints)
     \<and> (\<forall>boost. boost_str P boost \<notin> mode_hints)"

text \<open>An effect that is about none of the three hints.\<close>

definition neutral :: "effect \<Rightarrow> bool" where
  "neutral e \<longleftrightarrow> (\<forall>name \<in> mode_hints. e \<noteq> DoHint name \<and> e \<noteq> EndHint name)"

text \<open>Calls of the service and, with names of their own, of the extension.\<close>

inductive power_step :: "env \<Rightarrow> power_env \<Rightarrow> ih_env \<Rightarrow> Power \<Rightarrow> Power \<Rightarrow> bool"
  for E :: env and P :: power_env and H :: ih_env where
  "power_step E P H p (snd (Power_setMode E P mode enabled p))"
| "power_step E P H p (snd (Power_setBoost E P H now boost dur p))"
| "name \<notin> mode_hints \<Longrightarrow> power_step E P H p (snd (PowerExt_setMode E name enabled p))"
| "name \<notin> mode_hints \<Longrightarrow> power_step E P H p (snd (PowerExt_setBoost name dur p))"

definition sample_power_env :: power_env where
  "sample_power_env =
     \<lparr>mode_str = (\<lambda>mode. case mode of VR \<Rightarrow> ''VR'' | SUSTAINED_PERFORMANCE \<Rightarrow> ''SUSTAINED_PERFORMANCE'' | _ \<Rightarrow> ''OTHER''),
      mode_val = (\<lambda>_. 0), boost_str = (\<lambda>_. ''BOOST''), boost_val = (\<lambda>_. 0), val_AUTOMOTIVE_PROJECTION = 18,
      val_GAME_LOADING = 16, val_CAMERA_STREAMING_HIGH = 14, val_CAMERA_SHOT = 5, adpf_supported = (\<lambda>_. False),
      pps_written = (\<lambda>_. 0), prop_state = ''VR'', prop_audio = [], prop_rendering = [], interface_version = 5\<rparr>"

section \<open>Modes and hints\<close>

lemma hint_frame [simp]:
  "mVRModeOn (hint e p) = mVRModeOn p" "mSustainedPerfModeOn (hint e p) = mSustainedPerfModeOn p"
  "effects (psm (hint e p)) = effects (psm p) @ [e]"
  by (simp_all add: hint_def emit_def)

lemma modes_agree_neutral:
  assumes "modes_agree p" and "mVRModeOn p' = mVRModeOn p" "mSustainedPerfModeOn p' = mSustainedPerfModeOn p"
    and "effects (psm p') = effects (psm p) @ es" and "list_all neutral es"
  shows "modes_agree p'"
proof -
  have "hint_on name es b = b" if "name \<in> mode_hints" for name b
    using assms(5) that by (intro hint_on_other) (auto simp: neutral_def list_all_iff)
  with assms(1-4) show ?thesis by (simp add: modes_agree_def Let_def hint_on_append)
qed

lemma modes_agree_hint: "modes_agree p \<Longrightarrow> neutral e \<Longrightarrow> modes_agree (hint e p)"
  by (rule modes_agree_neutral [of p _ "[e]"]) simp_all

lemma modes_agree_updateHintMode:
  "modes_agree p \<Longrightarrow> modes_agree (p\<lparr>psm := updateHintMode E name b (psm p)\<rparr>)"
  by (rule modes_agree_neutral [of p _ "if adpf_present E (effects (psm p)) then [SetAdpfProfile name] else []"])
    (auto simp: updateHintMode_def Let_def emit_def neutral_def)

lemma modes_agree_flags:
  assumes "modes_agree p"
  shows "modes_agree (set_sustained b p)" "modes_agree (set_vr b p)"
  using assms
  by (auto simp: modes_agree_def set_sustained_def set_vr_def Let_def hint_on_append)

lemma modes_agree_set_hint: "modes_agree p \<Longrightarrow> name \<notin> mode_hints \<Longrightarrow> modes_agree (set_hint name b p)"
  unfolding set_hint_def by (rule modes_agree_hint) (auto simp: neutral_def)

lemma modes_agree_boost_hint: "modes_agree p \<Longrightarrow> name \<notin> mode_hints \<Longrightarrow> modes_agree (boost_hint name d p)"
  unfolding boost_hint_def by (rule modes_agree_hint) (auto simp: neutral_def)

lemma modes_agree_switch_mode:
  assumes "modes_agree p" and "names_apart P"
  shows "modes_agree (switch_mode P mode enabled p)"
proof -
  have d: "modes_agree (p\<lparr>mDisplayLowPower := d, pps_commands := c\<rparr>)" for d c
    by (rule modes_agree_neutral [OF assms(1), of _ "[]"]) simp_all
  have n: "mode_str P mode \<notin> mode_hints" if "mode \<noteq> VR" "mode \<noteq> SUSTAINED_PERFORMANCE"
    using assms(2) that by (simp add: names_apart_def)
  show ?thesis
    using assms(1) d n modes_agree_flags [OF assms(1)]
    by (cases mode) (simp_all add: switch_mode_def Let_def case_prod_unfold modes_agree_set_hint)
qed

lemma modes_agree_setMode:
  "modes_agree p \<Longrightarrow> names_apart P \<Longrightarrow> modes_agree (snd (Power_setMode E P mode enabled p))"
  by (simp add: Power_setMode_def modes_agree_switch_mode modes_agree_updateHintMode)

lemma IH_Acquire_neutral: "list_all neutral (fst (IH_Acquire H now dur h))"
  by (auto simp: IH_Acquire_def Let_def PerfLock_def neutral_def)

lemma fold_hint_frame:
  "mVRModeOn (fold hint es p) = mVRModeOn p" "mSustainedPerfModeOn (fold hint es p) = mSustainedPerfModeOn p"
  "effects (psm (fold hint es p)) = effects (psm p) @ es"
  by (induction es arbitrary: p) simp_all

lemma modes_agree_setBoost:
  assumes "modes_agree p" and "names_apart P"
  shows "modes_agree (snd (Power_setBoost E P H now boost dur p))"
proof (cases boost)
  case INTERACTION
  have "modes_agree ((fold hint es p)\<lparr>mInteractionHandler := h\<rparr>)" if "list_all neutral es" for es h
    by (rule modes_agree_neutral [OF assms(1), of _ es]) (simp_all add: fold_hint_frame that)
  with INTERACTION assms(1) IH_Acquire_neutral show ?thesis
    by (auto simp: Power_setBoost_def Let_def case_prod_unfold)
next
  case (OtherBoost k)
  with assms show ?thesis
    by (auto simp: Power_setBoost_def names_apart_def intro!: modes_agree_boost_hint)
qed

lemma modes_agree_step:
  assumes "names_apart P" and "modes_agree p" and "power_step E P H p p'"
  shows "modes_agree p'"
  using assms(3,2,1)
  by (cases rule: power_step.cases)
    (auto simp: PowerExt_setMode_def PowerExt_setBoost_def Let_def
      intro!: modes_agree_setMode modes_agree_setBoost modes_agree_set_hint modes_agree_boost_hint
        modes_agree_updateHintMode)

lemma modes_agree_new: "effects m = [] \<Longrightarrow> modes_agree (Power_new H P d m)"
  by (auto simp: Power_new_def Power_init_state_def Let_def modes_agree_def hint_on_append)

interpretation modes: invariant_of
  "\<lambda>p. names_apart P \<and> (\<exists>d m. effects m = [] \<and> p = Power_new H P d m)"
  "\<lambda>p p'. names_apart P \<and> power_step E P H p p'" modes_agree for E P H
  by unfold_locales (auto intro: modes_agree_new modes_agree_step)

section \<open>Properties\<close>



end
