(* ===== verification/HintService.thy ===== *)
theory HintService
  imports PowerAidl
begin

text \<open>
  The service as a whole: clients create hint sessions through
  \<^verbatim>\<open>power-libperfmgr/aidl/Power.cpp\<close>, call them, drop them, and the worker thread delivers
  timeouts, in any order. Each call runs to its end before the next one (the binder thread
  pool of the service has one thread), except that timeouts come in between.

  \<open>service_step\<close> composes the session objects, the manager they share and the counter their
  ids come from; the invariant ties the sessions the manager knows to the objects that exist.
\<close>

section \<open>Definitions\<close>

datatype session_call =
    CallPause
  | CallResume
  | CallClose
  | CallTarget int
  | CallReport "WorkDuration list"
  | CallHint SessionHint
  | CallMode SessionMode bool
  | CallThreads "tid list"

fun run_call :: "env \<Rightarrow> session_call \<Rightarrow> PHS \<times> PSM \<Rightarrow> (status \<times> PHS \<times> PSM) outcome" where
  "run_call E CallPause = PHS_pause E"
| "run_call E CallResume = PHS_resume E"
| "run_call E CallClose = PHS_close E"
| "run_call E (CallTarget t) = PHS_updateTargetWorkDuration E t"
| "run_call E (CallReport ds) = PHS_reportActualWorkDuration E ds"
| "run_call E (CallHint h) = PHS_sendHint E h"
| "run_call E (CallMode md b) = PHS_setMode E md b"
| "run_call E (CallThreads ts) = PHS_setThreads E ts"

record service =
  sv_power :: Power
  sSessionIDCounter :: int
  sv_sessions :: "PHS list"

abbreviation sv_mgr :: "service \<Rightarrow> PSM" where
  "sv_mgr v \<equiv> psm (sv_power v)"

definition with_mgr :: "PSM \<Rightarrow> service \<Rightarrow> service" where
  "with_mgr m v = v\<lparr>sv_power := (sv_power v)\<lparr>psm := m\<rparr>\<rparr>"

text \<open>The service as \<^verbatim>\<open>service.cpp\<close> starts it.\<close>

definition service_init :: "env \<Rightarrow> power_env \<Rightarrow> ih_env \<Rightarrow> service" where
  "service_init E P H =
     \<lparr>sv_power = Power_new H P DisplayLowPower_new (PSM_init E), sSessionIDCounter = 0, sv_sessions = []\<rparr>"

inductive service_step :: "env \<Rightarrow> power_env \<Rightarrow> ih_env \<Rightarrow> service \<Rightarrow> service \<Rightarrow> bool"
  for E :: env and P :: power_env and H :: ih_env where
  create: "sSessionIDCounter v < 2 ^ 63 - 1 \<Longrightarrow>
    createHintSessionWithConfig E obj tg u ts dur tag (sSessionIDCounter v, sv_mgr v) = Ret (st, so, c, m) \<Longrightarrow>
    service_step E P H v ((with_mgr m v)\<lparr>sSessionIDCounter := c,
      sv_sessions := sv_sessions v @ (case so of None \<Rightarrow> [] | Some s \<Rightarrow> [s])\<rparr>)"
| call: "i < length (sv_sessions v) \<Longrightarrow> run_call E c (sv_sessions v ! i, sv_mgr v) = Ret (st, s, m) \<Longrightarrow>
    service_step E P H v ((with_mgr m v)\<lparr>sv_sessions := (sv_sessions v)[i := s]\<rparr>)"
| destroy: "i < length (sv_sessions v) \<Longrightarrow> PHS_delete E (sv_sessions v ! i, sv_mgr v) = Ret m \<Longrightarrow>
    service_step E P H v ((with_mgr m v)\<lparr>sv_sessions := take i (sv_sessions v) @ drop (Suc i) (sv_sessions v)\<rparr>)"
| timeout: "service_step E P H v (with_mgr (PSM_fire E (sv_mgr v)) v)"
| setMode: "service_step E P H v (v\<lparr>sv_power := snd (Power_setMode E P mode b (sv_power v))\<rparr>)"
| setBoost: "service_step E P H v (v\<lparr>sv_power := snd (Power_setBoost E P H now boost dur (sv_power v))\<rparr>)"
| ext_setMode: "service_step E P H v (v\<lparr>sv_power := snd (PowerExt_setMode E name b (sv_power v))\<rparr>)"
| ext_setBoost: "service_step E P H v (v\<lparr>sv_power := snd (PowerExt_setBoost name dur (sv_power v))\<rparr>)"

definition open_ids :: "PHS list \<Rightarrow> sid set" where
  "open_ids ss = mSessionId ` {s \<in> set ss. \<not> mSessionClosed s}"

definition service_inv :: "env \<Rightarrow> service \<Rightarrow> bool" where
  "service_inv E v \<longleftrightarrow>
     psm_reachable E (sv_mgr v) \<and> 0 \<le> sSessionIDCounter v \<and> sSessionIDCounter v < 2 ^ 63
     \<and> distinct (map mSessionId (sv_sessions v))
     \<and> (\<forall>s \<in> set (sv_sessions v). 0 < mSessionId s \<and> mSessionId s \<le> sSessionIDCounter v \<and> \<not> locked s)
     \<and> live (sv_mgr v) = open_ids (sv_sessions v)"

section \<open>The invariant\<close>

lemma with_mgr_frame [simp]:
  "sv_mgr (with_mgr m v) = m" "sSessionIDCounter (with_mgr m v) = sSessionIDCounter v"
  "sv_sessions (with_mgr m v) = sv_sessions v"
  by (simp_all add: with_mgr_def)

lemma kept_run_call:
  "c \<noteq> CallClose \<Longrightarrow> run_call E c (s, m) = Ret (st, s', m') \<Longrightarrow> kept E (s, m) (s', m') \<and> \<not> locked s'"
  by (cases c) (auto dest: kept_pause kept_resume kept_updateTarget kept_report kept_sendHint kept_setMode kept_setThreads)

text \<open>What closing does, and what every other call leaves alone.\<close>

lemma run_call_effect:
  assumes run: "run_call E c (s, m) = Ret (st, s', m')" and inv: "psm_reachable E m"
  shows "psm_reachable E m' \<and> mSessionId s' = mSessionId s \<and> \<not> locked s'
    \<and> (mSessionClosed s \<longrightarrow> mSessionClosed s')
    \<and> live m' = (if mSessionClosed s' \<and> \<not> mSessionClosed s then live m - {mSessionId s} else live m)"
proof (cases "c = CallClose")
  case True
  have "psm_inv m" using inv by (rule manager.reach_inv)
  moreover have "psm_reachable E (removePowerSession E i m)" for i
    using inv by (rule reach_step) (rule psm_step.intros(2))
  ultimately show ?thesis
    using True run inv by (auto simp: PHS_close_outcome live_removePowerSession on_desc_def split: if_splits)
next
  case False
  have pinv: "psm_inv m" using inv by (rule manager.reach_inv)
  with kept_run_call [OF False run] inv show ?thesis
    by (auto simp: kept_def quiet_def intro: reach_steps)
qed

lemma open_ids_update:
  assumes "i < length ss" and "distinct (map mSessionId ss)" and "mSessionId s' = mSessionId (ss ! i)"
    and "mSessionClosed (ss ! i) \<longrightarrow> mSessionClosed s'"
  shows "open_ids (ss[i := s']) =
    (if mSessionClosed s' \<and> \<not> mSessionClosed (ss ! i) then open_ids ss - {mSessionId (ss ! i)} else open_ids ss)"
proof -
  have ss: "ss = take i ss @ ss ! i # drop (Suc i) ss" using assms(1) by (rule id_take_nth_drop)
  have u: "ss[i := s'] = take i ss @ s' # drop (Suc i) ss" using assms(1) by (rule upd_conv_take_nth_drop)
  have o: "open_ids (as @ x # bs) = (if mSessionClosed x then {} else {mSessionId x}) \<union> open_ids (as @ bs)" for as x bs
    by (auto simp: open_ids_def)
  have "mSessionId (ss ! i) \<notin> mSessionId ` (set (take i ss) \<union> set (drop (Suc i) ss))"
    using assms(2) by (subst (asm) ss) auto
  then have n: "mSessionId (ss ! i) \<notin> open_ids (take i ss @ drop (Suc i) ss)" by (auto simp: open_ids_def)
  have "open_ids ss = (if mSessionClosed (ss ! i) then {} else {mSessionId (ss ! i)}) \<union> open_ids (take i ss @ drop (Suc i) ss)"
    by (subst ss) (rule o)
  then show ?thesis unfolding u o using assms(3,4) n by auto
qed

lemma open_ids_append: "open_ids (xs @ ys) = open_ids xs \<union> open_ids ys"
  by (auto simp: open_ids_def)

lemma service_inv_create:
  assumes inv: "service_inv E v" and c: "sSessionIDCounter v < 2 ^ 63 - 1"
    and new: "createHintSessionWithConfig E obj tg u ts dur tag (sSessionIDCounter v, sv_mgr v) = Ret (st, so, c', m')"
  shows "service_inv E ((with_mgr m' v)\<lparr>sSessionIDCounter := c',
    sv_sessions := sv_sessions v @ (case so of None \<Rightarrow> [] | Some s \<Rightarrow> [s])\<rparr>)"
proof (cases so)
  case None
  with new inv show ?thesis
    by (auto simp: createHintSessionWithConfig_def service_inv_def obind_Ret split: if_splits)
next
  case (Some s)
  from new Some obtain m1 where n: "PHS_new E tg u ts dur tag (sSessionIDCounter v, sv_mgr v) = Ret (s, c', m1)"
    and m': "m' = registerSession obj (snd (getSessionConfig s)) m1"
    by (auto simp: createHintSessionWithConfig_def obind_Ret split: if_splits)
  have r: "psm_reachable E (sv_mgr v)" using inv by (simp add: service_inv_def)
  then have pinv: "psm_inv (sv_mgr v)" by (rule manager.reach_inv)
  note o = PHS_new_outcome [OF n pinv]
  have cnt: "c' = sSessionIDCounter v + 1"
    using o c inv by (simp add: service_inv_def to_signed_id in_signed_def)
  have "psm_reachable E m1" using o r by (auto intro: reach_steps)
  then have "psm_reachable E m'" unfolding m' by (rule reach_step) (rule psm_step.intros(14))
  moreover have "live m' = live m1" by (simp add: m' registerSession_def live_def)
  ultimately show ?thesis
    using inv o cnt c Some by (auto simp: service_inv_def open_ids_append) (auto simp: open_ids_def)
qed

lemma service_inv_call:
  assumes inv: "service_inv E v" and i: "i < length (sv_sessions v)"
    and run: "run_call E c (sv_sessions v ! i, sv_mgr v) = Ret (st, s, m)"
  shows "service_inv E ((with_mgr m v)\<lparr>sv_sessions := (sv_sessions v)[i := s]\<rparr>)"
proof -
  have r: "psm_reachable E (sv_mgr v)" and d: "distinct (map mSessionId (sv_sessions v))"
    using inv by (auto simp: service_inv_def)
  note e = run_call_effect [OF run r]
  have ids: "map mSessionId ((sv_sessions v)[i := s]) = map mSessionId (sv_sessions v)"
    using e i by (simp add: map_update list_update_same_conv)
  have "open_ids ((sv_sessions v)[i := s]) = live m"
    using e inv open_ids_update [OF i d, of s] by (simp add: service_inv_def)
  then show ?thesis
    using e inv i d ids by (auto simp: service_inv_def dest!: subsetD [OF set_update_subset_insert])
qed

lemma service_inv_destroy:
  assumes inv: "service_inv E v" and i: "i < length (sv_sessions v)"
    and del: "PHS_delete E (sv_sessions v ! i, sv_mgr v) = Ret m"
  shows "service_inv E ((with_mgr m v)\<lparr>sv_sessions := take i (sv_sessions v) @ drop (Suc i) (sv_sessions v)\<rparr>)"
proof -
  let ?ss = "sv_sessions v" and ?s = "sv_sessions v ! i"
  from del obtain st s' where run: "run_call E CallClose (?s, sv_mgr v) = Ret (st, s', m)"
    by (auto simp: PHS_delete_def PHS_close_outcome split: if_splits)
  then have closed: "mSessionClosed s'" by (auto simp: PHS_close_outcome on_desc_def split: if_splits)
  have inv': "service_inv E ((with_mgr m v)\<lparr>sv_sessions := ?ss[i := s']\<rparr>)"
    by (rule service_inv_call [OF inv i run])
  have u: "?ss[i := s'] = take i ?ss @ s' # drop (Suc i) ?ss" using i by (rule upd_conv_take_nth_drop)
  have "open_ids (take i ?ss @ s' # drop (Suc i) ?ss) = open_ids (take i ?ss @ drop (Suc i) ?ss)"
    using closed by (auto simp: open_ids_def)
  with inv' show ?thesis by (auto simp: service_inv_def u)
qed

subsection \<open>Modes and boosts\<close>

text \<open>The effects the service has on its own account.\<close>

fun is_hint :: "effect \<Rightarrow> bool" where
  "is_hint (DoHint _) = True"
| "is_hint (DoHintFor _ _) = True"
| "is_hint (EndHint _) = True"
| "is_hint _ = False"

lemma quiet_emit: "is_hint e \<Longrightarrow> quiet E m (emit e m)"
  by (cases e) (auto intro!: quiet_applies psm_step.intros(19-21) applies_emit)

lemma quiet_hint: "quiet E m (psm p) \<Longrightarrow> is_hint e \<Longrightarrow> quiet E m (psm (hint e p))"
  by (auto simp: hint_def intro: quiet_trans quiet_emit)

lemma quiet_hints: "quiet E m (psm p) \<Longrightarrow> list_all is_hint es \<Longrightarrow> quiet E m (psm (fold hint es p))"
  by (induction es arbitrary: p) (auto intro: quiet_hint)

lemma quiet_mode: "quiet E m (psm p) \<Longrightarrow> quiet E m (updateHintMode E name b (psm p))"
  by (erule quiet_trans) (rule quiet_applies [OF psm_step.intros(13) applies_updateHintMode])

lemma quiet_set_hint: "quiet E m (psm p) \<Longrightarrow> quiet E m (psm (set_hint name b p))"
  by (simp add: set_hint_def quiet_hint)

lemma quiet_boost_hint: "quiet E m (psm p) \<Longrightarrow> quiet E m (psm (boost_hint name d p))"
  by (simp add: boost_hint_def quiet_hint)

lemma quiet_switch_mode: "quiet E m (psm p) \<Longrightarrow> quiet E m (psm (switch_mode P mode b p))"
  by (cases mode)
    (auto simp: switch_mode_def set_sustained_def set_vr_def Let_def case_prod_unfold quiet_set_hint quiet_hint)

lemma IH_Acquire_hints: "list_all is_hint (fst (IH_Acquire H now dur h))"
  by (auto simp: IH_Acquire_def Let_def PerfLock_def)

lemma quiet_power:
  "quiet E (psm p) (psm (snd (Power_setMode E P mode b p)))"
  "quiet E (psm p) (psm (snd (Power_setBoost E P H now boost dur p)))"
  "quiet E (psm p) (psm (snd (PowerExt_setMode E name b p)))"
  "quiet E (psm p) (psm (snd (PowerExt_setBoost name dur p)))"
  using IH_Acquire_hints [of H now dur "mInteractionHandler p"]
  by (auto simp: Power_setMode_def Power_setBoost_def PowerExt_setMode_def PowerExt_setBoost_def Let_def case_prod_unfold
      quiet_boost_hint quiet_set_hint quiet_hints quiet_mode intro!: quiet_switch_mode split: Boost.split)

lemma quiet_Power_new: "quiet E m (psm (Power_new H P d m))"
  by (auto simp: Power_new_def Power_init_state_def Let_def intro!: quiet_hint)

lemma service_inv_quiet:
  assumes "service_inv E v" and "quiet E (sv_mgr v) (psm p)"
  shows "service_inv E (v\<lparr>sv_power := p\<rparr>)"
proof -
  have "psm_reachable E (sv_mgr v)" using assms(1) by (simp add: service_inv_def)
  moreover from this have "psm_inv (sv_mgr v)" by (rule manager.reach_inv)
  ultimately show ?thesis using assms by (auto simp: service_inv_def quiet_def intro: reach_steps)
qed

lemma live_PSM_init: "live (PSM_init E) = {}"
  by (simp add: live_def PSM_init_def STM_votes_def STM_abs_def STM_init_def fun_eq_iff)

lemma service_inv_init: "service_inv E (service_init E P H)"
proof -
  have r: "psm_reachable E (PSM_init E)" by (rule reach_init) (rule refl)
  have "psm_inv (PSM_init E)" using r by (rule manager.reach_inv)
  then show ?thesis
    using quiet_Power_new [of E "PSM_init E" H P DisplayLowPower_new] r
    by (auto simp: service_inv_def service_init_def open_ids_def quiet_def live_PSM_init intro: reach_steps)
qed

lemma service_inv_step:
  assumes inv: "service_inv E v" and "service_step E P H v w"
  shows "service_inv E w"
  using assms(2)
proof cases
  case timeout
  have r: "psm_reachable E (sv_mgr v)" using inv by (simp add: service_inv_def)
  then have "psm_reachable E (PSM_fire E (sv_mgr v))" by (rule reach_step) (rule psm_step.intros(12))
  with inv show ?thesis
    using PSM_fire_sessions [OF manager.reach_inv [OF r]] timeout by (simp add: service_inv_def live_def)
qed (simp_all add: service_inv_create [OF inv] service_inv_call [OF inv] service_inv_destroy [OF inv]
    service_inv_quiet [OF inv] quiet_power)

interpretation sessions: invariant_of "\<lambda>v. v = service_init E P H" "service_step E P H" "service_inv E" for E P H
  by unfold_locales (auto intro: service_inv_init service_inv_step)

section \<open>Properties\<close>

text \<open>
  C1: Whatever the clients do, as long as the session counter does not overflow, the sessions
  the manager knows are exactly those of the session objects that exist and are not closed:
  none is lost and none outlives its object. No two objects share an id, so no client can
  reach the threads of another one's session, and between two calls no session is left locked.
\<close>
theorem sessions_agree:
  assumes "reach (\<lambda>v. v = service_init E P H) (service_step E P H) v"
  shows "live (sv_mgr v) = mSessionId ` {s \<in> set (sv_sessions v). \<not> mSessionClosed s}
    \<and> distinct (map mSessionId (sv_sessions v)) \<and> \<not> list_ex locked (sv_sessions v)"
  using sessions.reach_inv [OF assms] by (auto simp: service_inv_def open_ids_def list_ex_iff)

theorem sessions_agree_witness:
  "\<exists>s c m. createHintSessionWithConfig sample_env 0 100 10001 [7, 8] 1000000 0
       (0, sv_mgr (service_init sample_env sample_power_env sample_ih)) = Ret (STATUS_OK, Some s, c, m)
     \<and> mSessionId s = 1 \<and> live m = {1}"
proof -
  let ?v = "service_init sample_env sample_power_env sample_ih"
  let ?create = "createHintSessionWithConfig sample_env 0 100 10001 [7, 8] 1000000 0 (0, sv_mgr ?v)"
  have p: "adpf_profile sample_env h = sample_config" "adpf_present sample_env h" for h
    by (simp_all add: sample_env_def)
  have "fp_round f64 1000000 = Fin 1000000" "fp_round f64 10000000 = Fin 10000000" "fp_round f64 5000000 = Fin 5000000"
    using f64_round_of_int [of 1000000] f64_round_of_int [of 10000000] f64_round_of_int [of 5000000] by simp_all
  then have half: "half_stale_ns sample_config 1000000 = Some 5000000"
    by (simp add: half_stale_ns_def sample_config_def fp_of_int_def in_signed_def)
  have c: "mReportingRateLimitNs sample_config > 0" "session_records sample_config = Ret None"
    by (simp_all add: sample_config_def session_records_def heuristic_on_def)
  have "\<exists>s c m. ?create = Ret (STATUS_OK, Some s, c, m) \<and> mSessionId s = 1 \<and> \<not> mSessionClosed s"
    by (simp add: createHintSessionWithConfig_def adpf_reporting_def GetAdpfProfile_def p c PHS_new_def Let_def
        case_prod_unfold half to_signed_id in_signed_def)
  then obtain s c m where r: "?create = Ret (STATUS_OK, Some s, c, m)" "mSessionId s = 1" "\<not> mSessionClosed s" by blast
  let ?w = "(with_mgr m ?v)\<lparr>sSessionIDCounter := c, sv_sessions := sv_sessions ?v @ (case Some s of None \<Rightarrow> [] | Some s \<Rightarrow> [s])\<rparr>"
  have "service_step sample_env sample_power_env sample_ih ?v ?w"
    by (rule service_step.create) (use r in \<open>simp_all add: service_init_def\<close>)
  with reach_init have "reach (\<lambda>v. v = ?v) (service_step sample_env sample_power_env sample_ih) ?w"
    by (rule reach_step) (rule refl)
  from sessions_agree [OF this] r show ?thesis by (auto simp: service_init_def)
qed

end
