(* ===== verification/PowerHidl.thy ===== *)
theory PowerHidl
  imports InteractionHandler HintLog
begin

text \<open>
  \<^verbatim>\<open>power-libperfmgr/hidl/Power.{h,cpp}\<close>: the older service of the power hints. Hints are taken
  once the thread the constructor starts has initialised the service; the thread is one step of
  \<open>hidl_step\<close>. The hints of the three interface versions extend one another and are one type.
  The state property is a member of the state, and whether it can be set is a parameter.
\<close>

section \<open>Definitions\<close>

datatype PowerHint =
    HINT_INTERACTION | HINT_VIDEO_ENCODE | HINT_SUSTAINED_PERFORMANCE | HINT_VR_MODE | HINT_LAUNCH
  | HINT_AUDIO_LOW_LATENCY | HINT_AUDIO_STREAMING | HINT_CAMERA_LAUNCH | HINT_CAMERA_STREAMING | HINT_CAMERA_SHOT
  | HINT_EXPENSIVE_RENDERING | OtherHint int

record hidl_env =
  prop_state :: string
  prop_audio :: string
  prop_rendering :: string
  SetProperty_ok :: "effect list \<Rightarrow> bool"

record PowerHidl =
  mInteractionHandler :: IH
  mVRModeOn :: bool
  mSustainedPerfModeOn :: bool
  mEncoderModeOn :: bool
  mReady :: bool
  state_prop :: string
  hint_log :: "effect list"

definition send :: "effect \<Rightarrow> PowerHidl \<Rightarrow> PowerHidl" where
  "send e p = p\<lparr>hint_log := hint_log p @ [e]\<rparr>"

definition PowerHidl_new :: "hidl_env \<Rightarrow> PowerHidl" where
  "PowerHidl_new P =
     \<lparr>mInteractionHandler = IH_new, mVRModeOn = False, mSustainedPerfModeOn = False, mEncoderModeOn = False,
      mReady = False, state_prop = prop_state P, hint_log = []\<rparr>"

text \<open>The thread of the constructor.\<close>

definition init_state :: "string \<Rightarrow> PowerHidl \<Rightarrow> PowerHidl" where
  "init_state state p =
     (if state = ''VIDEO_ENCODE'' then (send (DoHint ''VIDEO_ENCODE'') p)\<lparr>mEncoderModeOn := True\<rparr>
      else if state = ''SUSTAINED_PERFORMANCE'' then (send (DoHint ''SUSTAINED_PERFORMANCE'') p)\<lparr>mSustainedPerfModeOn := True\<rparr>
      else if state = ''VR_MODE'' then (send (DoHint ''VR_MODE'') p)\<lparr>mVRModeOn := True\<rparr>
      else if state = ''VR_SUSTAINED_PERFORMANCE''
      then (send (DoHint ''VR_SUSTAINED_PERFORMANCE'') p)\<lparr>mSustainedPerfModeOn := True, mVRModeOn := True\<rparr>
      else p)"

definition init_thread :: "ih_env \<Rightarrow> hidl_env \<Rightarrow> PowerHidl \<Rightarrow> PowerHidl" where
  "init_thread H P p =
     (let p1 = init_state (state_prop p) (p\<lparr>mInteractionHandler := snd (IH_Init H (mInteractionHandler p))\<rparr>);
          p2 = (if prop_audio P = ''AUDIO_LOW_LATENCY'' then send (DoHint ''AUDIO_LOW_LATENCY'') p1 else p1);
          p3 = (if prop_rendering P = ''EXPENSIVE_RENDERING'' then send (DoHint ''EXPENSIVE_RENDERING'') p2 else p2)
      in p3\<lparr>mReady := True\<rparr>)"

subsection \<open>Hints\<close>

definition hold :: "string \<Rightarrow> bool \<Rightarrow> PowerHidl \<Rightarrow> PowerHidl" where
  "hold name on = send (if on then DoHint name else EndHint name)"

definition set_state_prop :: "hidl_env \<Rightarrow> string \<Rightarrow> PowerHidl \<Rightarrow> PowerHidl" where
  "set_state_prop P value p = (if SetProperty_ok P (hint_log p) then p\<lparr>state_prop := value\<rparr> else p)"

definition video_encode :: "hidl_env \<Rightarrow> bool \<Rightarrow> PowerHidl \<Rightarrow> PowerHidl" where
  "video_encode P on p =
     (set_state_prop P (if on then ''VIDEO_ENCODE'' else []) (hold ''VIDEO_ENCODE'' on p))\<lparr>mEncoderModeOn := on\<rparr>"

definition sustained_performance :: "bool \<Rightarrow> PowerHidl \<Rightarrow> PowerHidl" where
  "sustained_performance on p =
     (if on \<and> \<not> mSustainedPerfModeOn p then
        (if \<not> mVRModeOn p then send (DoHint ''SUSTAINED_PERFORMANCE'') p
         else send (DoHint ''VR_SUSTAINED_PERFORMANCE'') (send (EndHint ''VR_MODE'') p))\<lparr>mSustainedPerfModeOn := True\<rparr>
      else if \<not> on \<and> mSustainedPerfModeOn p then
        (let p1 = send (EndHint ''SUSTAINED_PERFORMANCE'') (send (EndHint ''VR_SUSTAINED_PERFORMANCE'') p)
         in if mVRModeOn p1 then send (DoHint ''VR_MODE'') p1 else p1)\<lparr>mSustainedPerfModeOn := False\<rparr>
      else p)"

definition vr_mode :: "bool \<Rightarrow> PowerHidl \<Rightarrow> PowerHidl" where
  "vr_mode on p =
     (if on \<and> \<not> mVRModeOn p then
        (if \<not> mSustainedPerfModeOn p then send (DoHint ''VR_MODE'') p
         else send (DoHint ''VR_SUSTAINED_PERFORMANCE'') (send (EndHint ''SUSTAINED_PERFORMANCE'') p))\<lparr>mVRModeOn := True\<rparr>
      else if \<not> on \<and> mVRModeOn p then
        (let p1 = send (EndHint ''VR_MODE'') (send (EndHint ''VR_SUSTAINED_PERFORMANCE'') p)
         in if mSustainedPerfModeOn p1 then send (DoHint ''SUSTAINED_PERFORMANCE'') p1 else p1)\<lparr>mVRModeOn := False\<rparr>
      else p)"

text \<open>The second test of \<open>VIDEO_ENCODE\<close> repeats the first.\<close>

definition powerHint :: "hidl_env \<Rightarrow> ih_env \<Rightarrow> timespec \<Rightarrow> PowerHint \<Rightarrow> int \<Rightarrow> PowerHidl \<Rightarrow> PowerHidl" where
  "powerHint P H now h data p =
     (if \<not> mReady p then p
      else
        let ignored = (mVRModeOn p \<or> mSustainedPerfModeOn p)
        in case h of
             HINT_INTERACTION \<Rightarrow>
               if ignored then p
               else let (es, ih) = IH_Acquire H now data (mInteractionHandler p) in (fold send es p)\<lparr>mInteractionHandler := ih\<rparr>
           | HINT_VIDEO_ENCODE \<Rightarrow> if ignored then p else video_encode P (data \<noteq> 0) p
           | HINT_SUSTAINED_PERFORMANCE \<Rightarrow> sustained_performance (data \<noteq> 0) p
           | HINT_VR_MODE \<Rightarrow> vr_mode (data \<noteq> 0) p
           | HINT_LAUNCH \<Rightarrow> if ignored then p else hold ''LAUNCH'' (data \<noteq> 0) p
           | _ \<Rightarrow> p)"

definition powerHintAsync :: "hidl_env \<Rightarrow> ih_env \<Rightarrow> timespec \<Rightarrow> PowerHint \<Rightarrow> int \<Rightarrow> PowerHidl \<Rightarrow> PowerHidl" where
  "powerHintAsync = powerHint"

text \<open>A hint with a duration, ended by 0 and refused where it is negative.\<close>

definition timed_hint :: "string \<Rightarrow> effect \<Rightarrow> int \<Rightarrow> PowerHidl \<Rightarrow> PowerHidl" where
  "timed_hint name start data p = (if data > 0 then send start p else if data = 0 then send (EndHint name) p else p)"

definition powerHintAsync_1_2 :: "hidl_env \<Rightarrow> ih_env \<Rightarrow> timespec \<Rightarrow> PowerHint \<Rightarrow> int \<Rightarrow> PowerHidl \<Rightarrow> PowerHidl" where
  "powerHintAsync_1_2 P H now h data p =
     (if \<not> mReady p then p
      else case h of
        HINT_AUDIO_LOW_LATENCY \<Rightarrow> hold ''AUDIO_LOW_LATENCY'' (data \<noteq> 0) p
      | HINT_AUDIO_STREAMING \<Rightarrow> hold ''AUDIO_STREAMING'' (data \<noteq> 0) p
      | HINT_CAMERA_LAUNCH \<Rightarrow> timed_hint ''CAMERA_LAUNCH'' (DoHint ''CAMERA_LAUNCH'') data p
      | HINT_CAMERA_STREAMING \<Rightarrow> timed_hint ''CAMERA_STREAMING'' (DoHintFor ''CAMERA_STREAMING'' data) data p
      | HINT_CAMERA_SHOT \<Rightarrow> timed_hint ''CAMERA_SHOT'' (DoHintFor ''CAMERA_SHOT'' data) data p
      | _ \<Rightarrow> powerHint P H now h data p)"

definition powerHintAsync_1_3 :: "hidl_env \<Rightarrow> ih_env \<Rightarrow> timespec \<Rightarrow> PowerHint \<Rightarrow> int \<Rightarrow> PowerHidl \<Rightarrow> PowerHidl" where
  "powerHintAsync_1_3 P H now h data p =
     (if \<not> mReady p then p
      else if h = HINT_EXPENSIVE_RENDERING then
        if mVRModeOn p \<or> mSustainedPerfModeOn p then p
        else hold ''EXPENSIVE_RENDERING'' (data > 0) p
      else powerHintAsync_1_2 P H now h data p)"

definition show_flag :: "bool \<Rightarrow> string" where
  "show_flag b = (if b then ''true'' else ''false'')"

definition debug_text :: "bool \<Rightarrow> PowerHidl \<Rightarrow> string" where
  "debug_text running p =
     ''HintManager Running: '' @ show_flag running @ ''\<newline>VRMode: '' @ show_flag (mVRModeOn p)
     @ ''\<newline>SustainedPerformanceMode: '' @ show_flag (mSustainedPerfModeOn p)
     @ ''\<newline>VideoEncodeMode: '' @ show_flag (mEncoderModeOn p) @ ''\<newline>''"

inductive hidl_step :: "hidl_env \<Rightarrow> ih_env \<Rightarrow> PowerHidl \<Rightarrow> PowerHidl \<Rightarrow> bool"
  for P :: hidl_env and H :: ih_env where
  init: "\<not> mReady p \<Longrightarrow> hidl_step P H p (init_thread H P p)"
| hint_1_0: "hidl_step P H p (powerHint P H now h data p)"
| hint_1_3: "hidl_step P H p (powerHintAsync_1_3 P H now h data p)"

subsection \<open>Specification\<close>

definition on_in :: "PowerHidl \<Rightarrow> string \<Rightarrow> bool" where
  "on_in p name = hint_on name (hint_log p) False"

definition hidl_inv :: "PowerHidl \<Rightarrow> bool" where
  "hidl_inv p \<longleftrightarrow>
     (on_in p ''VR_MODE'' \<longleftrightarrow> mVRModeOn p \<and> \<not> mSustainedPerfModeOn p)
     \<and> (on_in p ''SUSTAINED_PERFORMANCE'' \<longleftrightarrow> mSustainedPerfModeOn p \<and> \<not> mVRModeOn p)
     \<and> (on_in p ''VR_SUSTAINED_PERFORMANCE'' \<longleftrightarrow> mVRModeOn p \<and> mSustainedPerfModeOn p)
     \<and> (on_in p ''VIDEO_ENCODE'' \<longleftrightarrow> mEncoderModeOn p)
     \<and> (\<not> mReady p \<longrightarrow> hint_log p = [] \<and> \<not> mVRModeOn p \<and> \<not> mSustainedPerfModeOn p \<and> \<not> mEncoderModeOn p)"

definition flag_hints :: "string set" where
  "flag_hints = {''VR_MODE'', ''SUSTAINED_PERFORMANCE'', ''VR_SUSTAINED_PERFORMANCE'', ''VIDEO_ENCODE''}"

definition sample_hidl_env :: hidl_env where
  "sample_hidl_env = \<lparr>prop_state = ''VR_MODE'', prop_audio = [], prop_rendering = [], SetProperty_ok = (\<lambda>_. True)\<rparr>"

definition sample_now :: timespec where
  "sample_now = \<lparr>tv_sec = 1, tv_nsec = 0\<rparr>"

section \<open>Flags and hints\<close>

lemma send_frame [simp]:
  "mVRModeOn (send e p) = mVRModeOn p" "mSustainedPerfModeOn (send e p) = mSustainedPerfModeOn p"
  "mEncoderModeOn (send e p) = mEncoderModeOn p" "mReady (send e p) = mReady p" "state_prop (send e p) = state_prop p"
  "hint_log (send e p) = hint_log p @ [e]"
  by (simp_all add: send_def)

lemma on_in_send: "on_in (send e p) name = (if e = DoHint name then True else if e = EndHint name then False else on_in p name)"
  by (simp add: on_in_def hint_on_append)

lemma on_in_cong: "hint_log p = hint_log q \<Longrightarrow> on_in p name = on_in q name"
  by (simp add: on_in_def)

text \<open>A step that leaves the flags alone and sends other hints only.\<close>

lemma hidl_inv_other:
  assumes "hidl_inv p" "mReady p" and "hint_log q = hint_log p @ es" "list_all (\<lambda>e. \<forall>n \<in> flag_hints. e \<noteq> DoHint n \<and> e \<noteq> EndHint n) es"
    and "mVRModeOn q = mVRModeOn p" "mSustainedPerfModeOn q = mSustainedPerfModeOn p" "mEncoderModeOn q = mEncoderModeOn p" "mReady q"
  shows "hidl_inv q"
proof -
  have "on_in q n = on_in p n" if "n \<in> flag_hints" for n
    using assms(3,4) that hint_on_other [of es n] by (auto simp: on_in_def hint_on_append list_all_iff)
  then show ?thesis using assms by (simp add: hidl_inv_def flag_hints_def)
qed

lemma hidl_inv_send:
  "hidl_inv p \<Longrightarrow> mReady p \<Longrightarrow> \<forall>n \<in> flag_hints. e \<noteq> DoHint n \<and> e \<noteq> EndHint n \<Longrightarrow> hidl_inv (send e p)"
  by (rule hidl_inv_other [of p _ "[e]"]) simp_all

lemma hidl_inv_hold: "hidl_inv p \<Longrightarrow> mReady p \<Longrightarrow> name \<notin> flag_hints \<Longrightarrow> hidl_inv (hold name b p)"
  unfolding hold_def by (rule hidl_inv_send) auto

lemma hidl_inv_timed:
  "hidl_inv p \<Longrightarrow> mReady p \<Longrightarrow> name \<notin> flag_hints \<Longrightarrow> start \<in> {DoHint name, DoHintFor name data} \<Longrightarrow>
    hidl_inv (timed_hint name start data p)"
  by (auto simp: timed_hint_def intro!: hidl_inv_send)

lemma hidl_inv_flags:
  assumes "hidl_inv p" "mReady p"
  shows "hidl_inv (sustained_performance b p)" "hidl_inv (vr_mode b p)"
  using assms by (auto simp: hidl_inv_def sustained_performance_def vr_mode_def Let_def on_in_def hint_on_append)

lemma hidl_inv_encode:
  assumes "hidl_inv p" "mReady p"
  shows "hidl_inv (video_encode P b p)"
  using assms by (auto simp: hidl_inv_def video_encode_def set_state_prop_def hold_def on_in_def hint_on_append)

lemma fold_send:
  "hint_log (fold send es p) = hint_log p @ es" "mVRModeOn (fold send es p) = mVRModeOn p"
  "mSustainedPerfModeOn (fold send es p) = mSustainedPerfModeOn p" "mEncoderModeOn (fold send es p) = mEncoderModeOn p"
  "mReady (fold send es p) = mReady p"
  by (induction es arbitrary: p) simp_all

lemma hidl_inv_interaction:
  assumes "hidl_inv p" "mReady p"
  shows "hidl_inv ((fold send (fst (IH_Acquire H now d h)) p)\<lparr>mInteractionHandler := h'\<rparr>)"
  by (rule hidl_inv_other [OF assms, of _ "fst (IH_Acquire H now d h)"])
    (auto simp: fold_send assms(2) IH_Acquire_def PerfLock_def Let_def flag_hints_def)

lemma hidl_inv_powerHint:
  assumes inv: "hidl_inv p"
  shows "hidl_inv (powerHint P H now h data p)"
proof (cases "mReady p")
  case True
  have "hidl_inv (hold ''LAUNCH'' b p)" for b by (rule hidl_inv_hold [OF inv True]) (simp add: flag_hints_def)
  with True inv show ?thesis
    by (cases h) (auto simp: powerHint_def Let_def case_prod_unfold hidl_inv_flags hidl_inv_encode hidl_inv_interaction)
qed (use inv in \<open>simp add: powerHint_def\<close>)

lemma hidl_inv_1_3:
  assumes inv: "hidl_inv p"
  shows "hidl_inv (powerHintAsync_1_3 P H now h data p)"
proof (cases "mReady p")
  case True
  have "hidl_inv (hold name b p)" if "name \<in> {''AUDIO_LOW_LATENCY'', ''AUDIO_STREAMING'', ''EXPENSIVE_RENDERING''}" for name b
    using that by (intro hidl_inv_hold [OF inv True]) (auto simp: flag_hints_def)
  moreover have "hidl_inv (timed_hint name start data p)"
    if "name \<in> {''CAMERA_LAUNCH'', ''CAMERA_STREAMING'', ''CAMERA_SHOT''}" "start \<in> {DoHint name, DoHintFor name data}" for name start
    using that by (intro hidl_inv_timed [OF inv True]) (auto simp: flag_hints_def)
  ultimately show ?thesis
    using True inv by (cases h) (simp_all add: powerHintAsync_1_3_def powerHintAsync_1_2_def hidl_inv_powerHint)
qed (use inv in \<open>simp add: powerHintAsync_1_3_def\<close>)

lemma hidl_inv_init_thread:
  assumes "hidl_inv p" "\<not> mReady p"
  shows "hidl_inv (init_thread H P p)"
  using assms by (auto simp: hidl_inv_def init_thread_def init_state_def Let_def on_in_def hint_on_append)

interpretation hints: invariant_of "\<lambda>p. p = PowerHidl_new P" "hidl_step P H" hidl_inv for P H
proof unfold_locales
  show "hidl_inv p" if "p = PowerHidl_new P" for p
    using that by (simp add: hidl_inv_def PowerHidl_new_def on_in_def)
  show "hidl_inv q" if "hidl_inv p" "hidl_step P H p q" for p q
    using that(2,1) by cases (auto intro: hidl_inv_init_thread hidl_inv_powerHint hidl_inv_1_3)
qed

section \<open>Properties\<close>

text \<open>
  C18: In the older service too the hints that are on are those of the modes that are on: one of
  three for virtual reality, sustained performance and both, and one for video encoding. Before
  the service is initialised no call has any effect.
\<close>
theorem hidl_hints_agree:
  assumes "reach (\<lambda>p. p = PowerHidl_new P) (hidl_step P H) p"
  shows "(hint_on ''VR_MODE'' (hint_log p) False \<longleftrightarrow> mVRModeOn p \<and> \<not> mSustainedPerfModeOn p)
    \<and> (hint_on ''SUSTAINED_PERFORMANCE'' (hint_log p) False \<longleftrightarrow> mSustainedPerfModeOn p \<and> \<not> mVRModeOn p)
    \<and> (hint_on ''VR_SUSTAINED_PERFORMANCE'' (hint_log p) False \<longleftrightarrow> mVRModeOn p \<and> mSustainedPerfModeOn p)
    \<and> (hint_on ''VIDEO_ENCODE'' (hint_log p) False \<longleftrightarrow> mEncoderModeOn p)
    \<and> (mReady p \<or> hint_log p = [])"
  using hints.reach_inv [OF assms] by (auto simp: hidl_inv_def on_in_def)

theorem hidl_hints_agree_witness:
  "let p = powerHint sample_hidl_env sample_ih sample_now HINT_SUSTAINED_PERFORMANCE 1
       (init_thread sample_ih sample_hidl_env (PowerHidl_new sample_hidl_env))
   in mVRModeOn p \<and> mSustainedPerfModeOn p \<and> hint_on ''VR_SUSTAINED_PERFORMANCE'' (hint_log p) False
      \<and> \<not> hint_on ''VR_MODE'' (hint_log p) False"
proof -
  let ?start = "PowerHidl_new sample_hidl_env"
  let ?p = "powerHint sample_hidl_env sample_ih sample_now HINT_SUSTAINED_PERFORMANCE 1 (init_thread sample_ih sample_hidl_env ?start)"
  let ?reach = "reach (\<lambda>p. p = ?start) (hidl_step sample_hidl_env sample_ih)"
  have "?reach ?start" by (rule reach_init) (rule refl)
  then have "?reach (init_thread sample_ih sample_hidl_env ?start)"
    by (rule reach_step) (rule hidl_step.init, simp add: PowerHidl_new_def)
  then have "?reach ?p" by (rule reach_step) (rule hidl_step.hint_1_0)
  from hidl_hints_agree [OF this] have "?thesis \<longleftrightarrow> mVRModeOn ?p \<and> mSustainedPerfModeOn ?p" by (auto simp: Let_def)
  then show ?thesis
    by (simp add: powerHint_def sustained_performance_def init_thread_def init_state_def PowerHidl_new_def sample_hidl_env_def Let_def)
qed

end
