(* ===== verification/PowerStats.thy ===== *)
theory PowerStats
  imports Decimal Outcome "HOL-Library.Word"
begin

text \<open>
  \<^verbatim>\<open>power-libperfmgr/hidl/power-helper.{h,c}\<close> and the methods of \<^verbatim>\<open>hidl/Power.cpp\<close> that use it:
  reading the sleep statistics of the platform and of the wireless chip from debugfs files.

  The files and the allocator are parameters (\<open>stats_env\<close>). The array the statistics go into is
  a list; a store outside it is undefined. A line is handled as the C string it is read into.
\<close>

section \<open>Definitions\<close>

subsection \<open>Tables\<close>

text \<open>The values of \<open>stats_type\<close>.\<close>

definition RPM_MODE_XO :: nat where "RPM_MODE_XO = 0"
definition RPM_MODE_VMIN :: nat where "RPM_MODE_VMIN = 1"
definition XO_VOTERS_START :: nat where "XO_VOTERS_START = 2"
definition MAX_PLATFORM_STATS :: nat where "MAX_PLATFORM_STATS = 6"
definition MAX_RPM_PARAMS :: nat where "MAX_RPM_PARAMS = 2"
definition WLAN_POWER_PARAMS_COUNT :: nat where "WLAN_POWER_PARAMS_COUNT = 4"

record stat_pair =
  stat :: nat
  label :: string
  parameters :: "string list"

definition rpm_stat_params :: "string list" where
  "rpm_stat_params = [''count'', ''actual last sleep(msec)'']"

definition master_stat_params :: "string list" where
  "master_stat_params = [''Accumulated XO duration'', ''XO Count'']"

definition rpm_stat_map :: "stat_pair list" where
  "rpm_stat_map =
     [\<lparr>stat = RPM_MODE_XO, label = ''RPM Mode:vlow'', parameters = rpm_stat_params\<rparr>,
      \<lparr>stat = RPM_MODE_VMIN, label = ''RPM Mode:vmin'', parameters = rpm_stat_params\<rparr>,
      \<lparr>stat = 2, label = ''APSS'', parameters = master_stat_params\<rparr>,
      \<lparr>stat = 3, label = ''MPSS'', parameters = master_stat_params\<rparr>,
      \<lparr>stat = 4, label = ''ADSP'', parameters = master_stat_params\<rparr>,
      \<lparr>stat = 5, label = ''SLPI'', parameters = master_stat_params\<rparr>]"

definition wlan_power_stat_params :: "string list" where
  "wlan_power_stat_params =
     [''cumulative_sleep_time_ms'', ''cumulative_total_on_time_ms'', ''deep_sleep_enter_counter'',
      ''last_deep_sleep_enter_tstamp_ms'']"

definition wlan_stat_map :: "stat_pair list" where
  "wlan_stat_map = [\<lparr>stat = 0, label = ''POWER DEBUG STATS'', parameters = wlan_power_stat_params\<rparr>]"

record stats_env =
  stat_file :: "string \<Rightarrow> string option"
  open_errno :: int
  malloc_ok :: "nat \<Rightarrow> bool"

definition kENOMEM :: int where
  "kENOMEM = 12"

subsection \<open>The C library\<close>

text \<open>\<open>strtoull(s, NULL, 0)\<close>, which takes the base from the prefix and saturates.\<close>

definition base_digit :: "nat \<Rightarrow> char \<Rightarrow> nat option" where
  "base_digit b c =
     (let n = of_char c :: nat;
          d = (if 48 \<le> n \<and> n \<le> 57 then n - 48 else if 97 \<le> n \<and> n \<le> 122 then n - 87
               else if 65 \<le> n \<and> n \<le> 90 then n - 55 else b)
      in if d < b then Some d else None)"

fun parse_base :: "nat \<Rightarrow> nat \<Rightarrow> string \<Rightarrow> nat" where
  "parse_base b acc [] = acc"
| "parse_base b acc (c # cs) = (case base_digit b c of None \<Rightarrow> acc | Some d \<Rightarrow> parse_base b (b * acc + d) cs)"

definition strtoull0 :: "string \<Rightarrow> 64 word" where
  "strtoull0 s =
     (let s1 = dropWhile is_space s;
          neg = (take 1 s1 = ''-'');
          s2 = (if take 1 s1 \<in> {''-'', ''+''} then drop 1 s1 else s1);
          n = (if take 2 s2 \<in> {''0x'', ''0X''} \<and> length s2 > 2 \<and> base_digit 16 (s2 ! 2) \<noteq> None
               then parse_base 16 0 (drop 2 s2)
               else if take 1 s2 = ''0'' then parse_base 8 0 s2
               else parse_base 10 0 s2)
      in if int n \<ge> 2 ^ 64 then - 1 else if neg then - of_nat n else of_nat n)"

text \<open>\<open>getline\<close>: the next line with its line end, and the rest of the file.\<close>

definition newline :: char where
  "newline = CHR 0x0A"

definition getline :: "string \<Rightarrow> (string \<times> string) option" where
  "getline s =
     (if s = [] then None
      else let n = Suc (length (takeWhile (\<lambda>c. c \<noteq> newline) s)) in Some (take n s, drop n s))"

definition c_str :: "string \<Rightarrow> string" where
  "c_str s = takeWhile (\<lambda>c. c \<noteq> char_of (0::nat)) s"

definition is_blank :: "char \<Rightarrow> bool" where
  "is_blank c \<longleftrightarrow> c = CHR '' '' \<or> c = CHR 0x09"

lemma getline_less: "getline s = Some (line, rest) \<Longrightarrow> length rest < length s"
  by (auto simp: getline_def Let_def split: if_splits)

subsection \<open>Reading statistics\<close>

text \<open>The index of a key among the parameters.\<close>

fun find_param :: "string list \<Rightarrow> string \<Rightarrow> nat option" where
  "find_param [] k = None"
| "find_param (p # ps) k = (if k = p then Some 0 else map_option Suc (find_param ps k))"

text \<open>The value a line gives to one of the parameters.\<close>

definition parse_line :: "string list \<Rightarrow> string \<Rightarrow> (nat \<times> 64 word) option" where
  "parse_line params line =
     (let key = dropWhile is_blank (c_str line);
          name = takeWhile (\<lambda>c. c \<noteq> CHR '':'') key
      in if CHR '':'' \<notin> set key then None
         else map_option (\<lambda>i. (i, strtoull0 (drop (Suc (length name)) key))) (find_param params name))"

function parse_loop :: "string list \<Rightarrow> nat \<Rightarrow> nat \<Rightarrow> 64 word list \<Rightarrow> string \<Rightarrow> (64 word list \<times> string) outcome" where
  "parse_loop params base params_read values s =
     (if params_read < length params then
        case getline s of
          None \<Rightarrow> Ret (values, s)
        | Some (line, rest) \<Rightarrow>
            (case parse_line params line of
               None \<Rightarrow> parse_loop params base params_read values rest
             | Some (i, v) \<Rightarrow>
                 if base + i < length values then parse_loop params base (Suc params_read) (values[base + i := v]) rest
                 else Undefined)
      else Ret (values, s))"
  by pat_completeness auto

termination
  by (relation "measure (\<lambda>(params, base, params_read, values, s). length s)") (auto dest: getline_less)

declare parse_loop.simps [simp del]

definition parse_stats :: "stats_env \<Rightarrow> nat \<Rightarrow> string list \<Rightarrow> nat \<Rightarrow> 64 word list \<Rightarrow> string \<Rightarrow> (int \<times> 64 word list \<times> string) outcome" where
  "parse_stats E alloc params base values s =
     (if \<not> malloc_ok E alloc then Ret (- kENOMEM, values, s)
      else obind (parse_loop params base 0 values s) (\<lambda>(values, s). Ret (0, values, s)))"

text \<open>The first entry of the table whose label the line starts with.\<close>

definition find_label :: "stat_pair list \<Rightarrow> string \<Rightarrow> stat_pair option" where
  "find_label table line =
     (let text = dropWhile is_blank (c_str line)
      in find (\<lambda>p. take (length (label p)) text = label p) table)"

lemma parse_loop_rest: "parse_loop params base k vs s = Ret (vs', s') \<Longrightarrow> length s' \<le> length s"
proof (induction params base k vs s rule: parse_loop.induct)
  case (1 params base k vs s)
  show ?case
  proof (cases "k < length params \<and> getline s \<noteq> None")
    case True
    then obtain line rest where g: "getline s = Some (line, rest)" by auto
    have "length s' \<le> length rest"
      using 1 True g by (subst (asm) (3) parse_loop.simps) (auto split: option.splits if_splits prod.splits)
    with getline_less [OF g] show ?thesis by simp
  next
    case False
    with 1(3) show ?thesis by (subst (asm) parse_loop.simps) (auto split: if_splits option.splits)
  qed
qed

lemma parse_stats_rest: "parse_stats E alloc params base vs s = Ret (ret, vs', s') \<Longrightarrow> length s' \<le> length s"
  by (auto simp: parse_stats_def dest: parse_loop_rest split: if_splits)

function extract_loop ::
  "stats_env \<Rightarrow> stat_pair list \<Rightarrow> nat \<Rightarrow> nat \<Rightarrow> 64 word list \<Rightarrow> string \<Rightarrow> (int \<times> 64 word list) outcome" where
  "extract_loop E table alloc stats_read values s =
     (if stats_read < length table then
        case getline s of
          None \<Rightarrow> Ret (0, values)
        | Some (line, rest) \<Rightarrow>
            (case find_label table line of
               None \<Rightarrow> extract_loop E table alloc stats_read values rest
             | Some p \<Rightarrow>
                 (case parse_stats E alloc (parameters p) (stat p * MAX_RPM_PARAMS) values rest of
                    Ret (ret, values, s) \<Rightarrow>
                      if ret < 0 then Ret (ret, values) else extract_loop E table (Suc alloc) (Suc stats_read) values s
                  | Undefined \<Rightarrow> Undefined
                  | Abort \<Rightarrow> Abort
                  | Deadlock \<Rightarrow> Deadlock))
      else Ret (0, values))"
  by pat_completeness auto

termination
  by (relation "measure (\<lambda>(E, table, alloc, stats_read, values, s). length s)")
    (auto dest!: getline_less parse_stats_rest)

declare extract_loop.simps [simp del]

definition extract_stats :: "stats_env \<Rightarrow> 64 word list \<Rightarrow> string \<Rightarrow> stat_pair list \<Rightarrow> (int \<times> 64 word list) outcome" where
  "extract_stats E values file table =
     (case stat_file E file of
        None \<Rightarrow> Ret (- open_errno E, values)
      | Some s \<Rightarrow> if \<not> malloc_ok E 0 then Ret (- kENOMEM, values) else extract_loop E table 1 0 values s)"

definition extract_platform_stats :: "stats_env \<Rightarrow> 64 word list \<Rightarrow> (int \<times> 64 word list) outcome" where
  "extract_platform_stats E values = extract_stats E values ''/d/system_stats'' rpm_stat_map"

definition extract_wlan_stats :: "stats_env \<Rightarrow> 64 word list \<Rightarrow> (int \<times> 64 word list) outcome" where
  "extract_wlan_stats E values = extract_stats E values ''/d/wlan0/power_stats'' wlan_stat_map"

subsection \<open>The statistics the service reports\<close>

record voter =
  voter_name :: string
  totalTimeInMsecVotedForSinceBoot :: "64 word"
  totalNumberOfTimesVotedSinceBoot :: "64 word"

record sleep_state =
  state_name :: string
  residencyInMsecSinceBoot :: "64 word"
  totalTransitions :: "64 word"
  supportedOnlyInSuspend :: bool

record platform_sleep_state = sleep_state +
  voters :: "voter list"

record subsystem_sleep_state = sleep_state +
  lastEntryTimestampMs :: "64 word"

definition RPM_CLK :: "64 word" where
  "RPM_CLK = 19200"

definition xo_voter :: "64 word list \<Rightarrow> nat \<Rightarrow> voter" where
  "xo_voter stats voter =
     \<lparr>voter_name = label (rpm_stat_map ! voter),
      totalTimeInMsecVotedForSinceBoot = stats ! (voter * MAX_RPM_PARAMS) div RPM_CLK,
      totalNumberOfTimesVotedSinceBoot = stats ! (voter * MAX_RPM_PARAMS + 1)\<rparr>"

definition platform_state :: "64 word list \<Rightarrow> string \<Rightarrow> nat \<Rightarrow> voter list \<Rightarrow> platform_sleep_state" where
  "platform_state stats name m vs =
     \<lparr>state_name = name, residencyInMsecSinceBoot = stats ! (m * MAX_RPM_PARAMS + 1),
      totalTransitions = stats ! (m * MAX_RPM_PARAMS), supportedOnlyInSuspend = False, voters = vs\<rparr>"

definition getPlatformLowPowerStats :: "stats_env \<Rightarrow> platform_sleep_state list outcome" where
  "getPlatformLowPowerStats E =
     obind (extract_platform_stats E (replicate (MAX_PLATFORM_STATS * MAX_RPM_PARAMS) 0)) (\<lambda>(ret, stats).
       Ret (if ret \<noteq> 0 then []
            else [platform_state stats ''XO_shutdown'' RPM_MODE_XO (map (xo_voter stats) [XO_VOTERS_START..<MAX_PLATFORM_STATS]),
                  platform_state stats ''VMIN'' RPM_MODE_VMIN []]))"

definition wlan_state :: "string \<Rightarrow> 64 word \<Rightarrow> 64 word \<Rightarrow> 64 word \<Rightarrow> subsystem_sleep_state" where
  "wlan_state name residency transitions entered =
     \<lparr>state_name = name, residencyInMsecSinceBoot = residency, totalTransitions = transitions,
      supportedOnlyInSuspend = False, lastEntryTimestampMs = entered\<rparr>"

text \<open>The name and the states of a subsystem, empty where the statistics cannot be read.\<close>

definition get_wlan_low_power_stats :: "stats_env \<Rightarrow> (int \<times> string \<times> subsystem_sleep_state list) outcome" where
  "get_wlan_low_power_stats E =
     obind (extract_wlan_stats E (replicate WLAN_POWER_PARAMS_COUNT 0)) (\<lambda>(ret, stats).
       Ret (if ret \<noteq> 0 then (ret, [], [])
            else (0, ''wlan'', [wlan_state ''Active'' (stats ! 1) (stats ! 2) 0,
                                wlan_state ''Deep-Sleep'' (stats ! 0) (stats ! 2) (stats ! 3)])))"

definition getSubsystemLowPowerStats :: "stats_env \<Rightarrow> (string \<times> subsystem_sleep_state list) list outcome" where
  "getSubsystemLowPowerStats E = obind (get_wlan_low_power_stats E) (\<lambda>(_, subsystem). Ret [subsystem])"

subsection \<open>Files in the kernel's format\<close>

definition print_param :: "string \<times> 64 word \<Rightarrow> string" where
  "print_param = (\<lambda>(k, v). CHR 0x09 # k @ CHR '':'' # show_nat (unat v) @ [newline])"

definition print_section :: "stat_pair \<times> 64 word list \<Rightarrow> string" where
  "print_section = (\<lambda>(p, vs). label p @ newline # concat (map print_param (zip (parameters p) vs)))"

text \<open>A name that can stand at the start of a line, before a colon.\<close>

definition plain_name :: "string \<Rightarrow> bool" where
  "plain_name k \<longleftrightarrow> k \<noteq> [] \<and> \<not> is_blank (hd k) \<and> newline \<notin> set k \<and> char_of (0::nat) \<notin> set k"

definition plain_table :: "stat_pair list \<Rightarrow> bool" where
  "plain_table table \<longleftrightarrow>
     list_all (\<lambda>p. plain_name (label p) \<and> find_label table (label p @ [newline]) = Some p \<and> distinct (parameters p)
       \<and> list_all (\<lambda>k. plain_name k \<and> CHR '':'' \<notin> set k) (parameters p)) table"

definition sample_stats_env :: stats_env where
  "sample_stats_env =
     \<lparr>stat_file = (\<lambda>_. Some (concat (map print_section (zip rpm_stat_map (replicate 6 [5, 70]))))), open_errno = 2, malloc_ok = (\<lambda>_. True)\<rparr>"

section \<open>Staying inside the array\<close>

lemma find_param_less: "find_param ps k = Some i \<Longrightarrow> i < length ps \<and> ps ! i = k"
  by (induction ps arbitrary: i) (auto split: if_splits)

lemma find_param_nth: "distinct ps \<Longrightarrow> i < length ps \<Longrightarrow> find_param ps (ps ! i) = Some i"
  by (induction ps arbitrary: i) (auto simp: nth_Cons split: nat.splits)

lemma parse_line_less: "parse_line params line = Some (i, v) \<Longrightarrow> i < length params"
  by (auto simp: parse_line_def Let_def dest: find_param_less split: if_splits)

lemma parse_loop_total:
  "base + length params \<le> length vs \<Longrightarrow> \<exists>vs' s'. parse_loop params base k vs s = Ret (vs', s') \<and> length vs' = length vs"
proof (induction params base k vs s rule: parse_loop.induct)
  case (1 params base k vs s)
  show ?case
  proof (cases "k < length params \<and> getline s \<noteq> None")
    case True
    then obtain line rest where g: "getline s = Some (line, rest)" by auto
    show ?thesis
    proof (cases "parse_line params line")
      case None
      with 1(1) [OF _ g refl None 1(3)] True g show ?thesis by (subst parse_loop.simps) simp
    next
      case (Some iv)
      obtain i v where iv: "iv = (i, v)" by (cases iv)
      have "base + i < length vs" using parse_line_less [OF Some [unfolded iv]] 1(3) by simp
      with 1(2) [OF _ g refl Some iv [symmetric]] 1(3) True g Some iv show ?thesis by (subst parse_loop.simps) simp
    qed
  next
    case False
    then show ?thesis by (subst parse_loop.simps) (cases "getline s"; auto)
  qed
qed

lemma extract_loop_total:
  assumes "list_all (\<lambda>p. stat p * MAX_RPM_PARAMS + length (parameters p) \<le> n) table" and "length vs = n"
  shows "\<exists>ret vs'. extract_loop E table alloc k vs s = Ret (ret, vs') \<and> length vs' = n"
  using assms
proof (induction E table alloc k vs s rule: extract_loop.induct)
  case (1 E table alloc k vs s)
  show ?case
  proof (cases "k < length table \<and> getline s \<noteq> None")
    case True
    then obtain line rest where g: "getline s = Some (line, rest)" by auto
    show ?thesis
    proof (cases "find_label table line")
      case None
      with 1(1) [OF _ g refl None] 1(3,4) True g show ?thesis by (subst extract_loop.simps) simp
    next
      case (Some p)
      then have "p \<in> set table" by (auto simp: find_label_def Let_def find_Some_iff)
      with 1(3,4) have "stat p * MAX_RPM_PARAMS + length (parameters p) \<le> length vs" by (auto simp: list_all_iff)
      from parse_loop_total [OF this, of 0 rest] obtain ret vs' s' where
        ps: "parse_stats E alloc (parameters p) (stat p * MAX_RPM_PARAMS) vs rest = Ret (ret, vs', s')" "length vs' = n"
        using 1(4) by (cases "malloc_ok E alloc") (auto simp: parse_stats_def)
      with 1(2) [OF _ g refl Some ps(1) refl refl] 1(3) True g Some show ?thesis by (subst extract_loop.simps) auto
    qed
  next
    case False
    with 1(4) show ?thesis by (subst extract_loop.simps) (cases "getline s"; auto)
  qed
qed

lemma extract_stats_total:
  assumes "list_all (\<lambda>p. stat p * MAX_RPM_PARAMS + length (parameters p) \<le> length vs) table"
  shows "\<exists>ret vs'. extract_stats E vs file table = Ret (ret, vs') \<and> length vs' = length vs"
  using extract_loop_total [OF assms refl] by (auto simp: extract_stats_def split: option.split)

section \<open>Reading back a printed file\<close>

lemma getline_line: "newline \<notin> set l \<Longrightarrow> getline (l @ newline # rest) = Some (l @ [newline], rest)"
proof -
  assume "newline \<notin> set l"
  then have "takeWhile (\<lambda>c. c \<noteq> newline) (l @ newline # rest) = l" by (subst takeWhile_append2) auto
  then show ?thesis by (simp add: getline_def Let_def)
qed

lemma base_digit_10: "base_digit 10 c = digit_val c"
  by (auto simp: base_digit_def digit_val_def Let_def)

lemma parse_base_10: "parse_base 10 acc s = parse_digits acc s"
  by (induction s arbitrary: acc) (auto simp: base_digit_10 split: option.splits)

lemma show_nat_hd: "0 < n \<Longrightarrow> hd (show_nat n) \<noteq> CHR ''0''"
proof (induction n rule: show_nat.induct)
  case (1 n)
  have d: "digit d \<noteq> CHR ''0''" if "0 < d" "d < 10" for d
    using that digit_val_digit [of d] by (auto simp: digit_val_def)
  show ?case
  proof (cases "n < 10")
    case True
    with d 1(2) show ?thesis by (subst show_nat.simps) simp
  next
    case False
    with 1 have "hd (show_nat (n div 10)) \<noteq> CHR ''0''" by simp
    with False show ?thesis by (subst show_nat.simps) simp
  qed
qed

lemma show_nat_chars: "c \<in> set (show_nat n) \<Longrightarrow> 48 \<le> (of_char c :: nat) \<and> (of_char c :: nat) \<le> 57"
  using show_nat_digits [of c n] by (auto simp: digit_val_def Let_def split: if_splits)

lemma not_in_show_nat:
  "newline \<notin> set (show_nat n)" "char_of (0::nat) \<notin> set (show_nat n)" "CHR '':'' \<notin> set (show_nat n)"
  by (auto simp: newline_def dest!: show_nat_chars)

lemma newline_digit: "digit_val newline = None"
  by code_simp

lemma strtoull0_show: "strtoull0 (show_nat (unat v) @ [newline]) = v"
proof -
  obtain c cs where c: "show_nat (unat v) = c # cs" by (meson neq_Nil_conv show_nat_not_Nil)
  then have d: "digit_val c \<noteq> None" using show_nat_digits [of c "unat v"] by simp
  then have sp: "\<not> is_space c" "c \<noteq> CHR ''-''" "c \<noteq> CHR ''+''"
    using minus_not_digit sign_not_digit by (auto simp: space_not_digit)
  have digits: "parse_digits 0 (show_nat (unat v) @ [newline]) = unat v"
    by (simp add: parse_digits_app show_nat_digits parse_digits_show newline_digit)
  have bound: "unat v < 2 ^ 64" by (rule order_less_le_trans [OF unsigned_less]) simp
  show ?thesis
  proof (cases "v = 0")
    case True
    have "show_nat 0 = ''0''" by code_simp
    then show ?thesis using True by (simp add: newline_def strtoull0_def Let_def base_digit_def is_space_def)
  next
    case False
    then have "c \<noteq> CHR ''0''" using show_nat_hd [of "unat v"] c by (simp add: unat_gt_0)
    moreover have "parse_base 10 0 (c # cs @ [newline]) = unat v" using digits c by (simp only: parse_base_10 append_Cons)
    ultimately show ?thesis using sp bound c by (simp add: strtoull0_def Let_def del: parse_base.simps)
  qed
qed

lemma c_str_id: "char_of (0::nat) \<notin> set s \<Longrightarrow> c_str s = s"
  by (auto simp: c_str_def takeWhile_eq_all_conv)

lemma drop_blank: "plain_name k \<Longrightarrow> dropWhile is_blank (k @ rest) = k @ rest"
  by (cases k) (auto simp: plain_name_def)

lemma parse_line_param:
  assumes "plain_name k" "CHR '':'' \<notin> set k" "find_param params k = Some i"
  shows "parse_line params (print_param (k, v)) = Some (i, v)"
proof -
  have "char_of (0::nat) \<noteq> newline" "char_of (0::nat) \<noteq> CHR '':''" "char_of (0::nat) \<noteq> CHR 0x09"
    by code_simp+
  then have "c_str (print_param (k, v)) = CHR 0x09 # k @ CHR '':'' # show_nat (unat v) @ [newline]"
    using assms(1) not_in_show_nat(2) by (subst c_str_id) (auto simp: print_param_def plain_name_def)
  moreover have "takeWhile (\<lambda>c. c \<noteq> CHR '':'') (k @ CHR '':'' # show_nat (unat v) @ [newline]) = k"
    using assms(2) by (subst takeWhile_append2) auto
  moreover have "is_blank (CHR 0x09)" by (simp add: is_blank_def)
  ultimately show ?thesis
    using assms by (simp add: parse_line_def Let_def drop_blank strtoull0_show)
qed

lemma print_param_line: "plain_name k \<Longrightarrow> getline (print_param (k, v) @ rest) = Some (print_param (k, v), rest)"
  using getline_line [of "CHR 0x09 # k @ CHR '':'' # show_nat (unat v)" rest] not_in_show_nat(1) [of "unat v"]
  by (auto simp: print_param_def plain_name_def newline_def)

text \<open>The lines of one section fill the slots of the array from the base on.\<close>

lemma parse_loop_params:
  assumes "distinct params" "list_all (\<lambda>k. plain_name k \<and> CHR '':'' \<notin> set k) params"
    and "params = ps @ qs" "length qs = length vs"
    and "base + length params \<le> length mem"
  shows "parse_loop params base (length ps) mem (concat (map print_param (zip qs vs)) @ rest) =
    Ret (take (base + length ps) mem @ vs @ drop (base + length params) mem, rest)"
  using assms(3-5)
proof (induction qs arbitrary: ps vs mem)
  case Nil
  then show ?case by (subst parse_loop.simps) simp
next
  case (Cons q qs)
  then obtain v ws where vs: "vs = v # ws" by (cases vs) auto
  have q: "plain_name q" "CHR '':'' \<notin> set q" using assms(2) Cons.prems(1) by auto
  have "find_param params q = Some (length ps)"
    using find_param_nth [OF assms(1), of "length ps"] Cons.prems(1) by simp
  then have line: "parse_line params (print_param (q, v)) = Some (length ps, v)"
    using q by (intro parse_line_param) auto
  let ?mem = "mem[base + length ps := v]" and ?rest = "concat (map print_param (zip qs ws)) @ rest"
  have less: "base + length ps < length mem" using Cons.prems by simp
  have "parse_loop params base (length ps) mem (print_param (q, v) @ ?rest) =
      parse_loop params base (length (ps @ [q])) ?mem ?rest"
    using print_param_line [OF q(1), of v ?rest] line less Cons.prems(1) by (subst parse_loop.simps) simp
  also have "\<dots> = Ret (take (base + length (ps @ [q])) ?mem @ ws @ drop (base + length params) ?mem, rest)"
    by (rule Cons.IH) (use Cons.prems vs in auto)
  also have "take (base + length (ps @ [q])) ?mem = take (base + length ps) mem @ [v]"
    using less by (simp add: take_Suc_conv_app_nth)
  finally show ?case using Cons.prems(1) less by (simp add: vs)
qed

lemma extract_loop_sections:
  assumes "plain_table table" and "\<And>n. malloc_ok E n"
    and "table = ts @ us" "length us = length vss" "length mem = length ts * MAX_RPM_PARAMS"
    and "\<forall>i < length table. stat (table ! i) = i \<and> length (parameters (table ! i)) = MAX_RPM_PARAMS"
    and "\<forall>vs \<in> set vss. length vs = MAX_RPM_PARAMS"
  shows "extract_loop E table alloc (length ts) (mem @ replicate (length us * MAX_RPM_PARAMS) 0)
      (concat (map print_section (zip us vss))) = Ret (0, mem @ concat vss)"
  using assms(3-7)
proof (induction us arbitrary: ts vss mem alloc)
  case Nil
  then show ?case by (subst extract_loop.simps) simp
next
  case (Cons u us)
  then obtain vs wss where vss: "vss = vs # wss" by (cases vss) auto
  let ?rest = "concat (map print_section (zip us wss))"
  let ?zeros = "replicate (length us * MAX_RPM_PARAMS) (0 :: 64 word)"
  have u: "u \<in> set table" "table ! length ts = u" using Cons.prems(1) by auto
  have st: "stat u = length ts" "length (parameters u) = MAX_RPM_PARAMS"
    using Cons.prems(1,4) u(2) by (metis length_append length_Cons less_add_Suc1 add_Suc_right)+
  have t: "plain_name (label u)" "find_label table (label u @ [newline]) = Some u" "distinct (parameters u)"
      "list_all (\<lambda>k. plain_name k \<and> CHR '':'' \<notin> set k) (parameters u)"
    using assms(1) u(1) by (auto simp: plain_table_def list_all_iff)
  have line: "getline (print_section (u, vs) @ ?rest) =
      Some (label u @ [newline], concat (map print_param (zip (parameters u) vs)) @ ?rest)"
    using getline_line [of "label u"] t(1) by (simp add: print_section_def plain_name_def)
  have v: "length vs = MAX_RPM_PARAMS" using Cons.prems(5) vss by auto
  have "parse_loop (parameters u) (length mem) 0 (mem @ replicate (Suc (length us) * MAX_RPM_PARAMS) 0)
      (concat (map print_param (zip (parameters u) vs)) @ ?rest) = Ret ((mem @ vs) @ ?zeros, ?rest)"
    using parse_loop_params [OF t(3,4), of "[]" "parameters u" vs "length mem"
        "mem @ replicate (Suc (length us) * MAX_RPM_PARAMS) 0" ?rest] st v by (simp add: replicate_add)
  then have "parse_stats E alloc (parameters u) (stat u * MAX_RPM_PARAMS) (mem @ replicate (length (u # us) * MAX_RPM_PARAMS) 0)
      (concat (map print_param (zip (parameters u) vs)) @ ?rest) = Ret (0, (mem @ vs) @ ?zeros, ?rest)"
    using assms(2) st(1) Cons.prems(3) by (simp add: parse_stats_def)
  moreover have "extract_loop E table (Suc alloc) (length (ts @ [u])) ((mem @ vs) @ ?zeros) ?rest = Ret (0, (mem @ vs) @ concat wss)"
    by (rule Cons.IH) (use Cons.prems vss v in auto)
  ultimately show ?case
    using line t(2) Cons.prems(1) by (subst extract_loop.simps) (simp add: vss)
qed

lemma rpm_table: "plain_table rpm_stat_map"
    "\<forall>i < length rpm_stat_map. stat (rpm_stat_map ! i) = i \<and> length (parameters (rpm_stat_map ! i)) = MAX_RPM_PARAMS"
  by code_simp+

lemma tables_fit:
  "list_all (\<lambda>p. stat p * MAX_RPM_PARAMS + length (parameters p) \<le> MAX_PLATFORM_STATS * MAX_RPM_PARAMS) rpm_stat_map"
  "list_all (\<lambda>p. stat p * MAX_RPM_PARAMS + length (parameters p) \<le> WLAN_POWER_PARAMS_COUNT) wlan_stat_map"
  by code_simp+

section \<open>Properties\<close>

text \<open>
  C25: Whatever the files contain, and whatever allocations fail, reading the statistics returns
  and never stores outside the arrays the service passes, neither for the platform nor for the
  wireless chip, whose table has more parameters than the stride of the array.
\<close>
theorem stats_in_bounds:
  "(\<exists>ret stats. extract_platform_stats E (replicate (MAX_PLATFORM_STATS * MAX_RPM_PARAMS) 0) = Ret (ret, stats)
      \<and> length stats = MAX_PLATFORM_STATS * MAX_RPM_PARAMS)
   \<and> (\<exists>ret stats. extract_wlan_stats E (replicate WLAN_POWER_PARAMS_COUNT 0) = Ret (ret, stats)
      \<and> length stats = WLAN_POWER_PARAMS_COUNT)"
  using extract_stats_total [of "replicate (MAX_PLATFORM_STATS * MAX_RPM_PARAMS) 0" rpm_stat_map E "''/d/system_stats''"]
    extract_stats_total [of "replicate WLAN_POWER_PARAMS_COUNT 0" wlan_stat_map E "''/d/wlan0/power_stats''"] tables_fit
  by (simp add: extract_platform_stats_def extract_wlan_stats_def)

text \<open>
  C17: Statistics printed in the kernel's format, a section for each entry of the table with a
  line for each of its parameters, are read back as they were, up to the largest 64-bit number.
\<close>
theorem platform_stats_roundtrip:
  assumes "stat_file E ''/d/system_stats'' = Some (concat (map print_section (zip rpm_stat_map vss)))"
    and "length vss = length rpm_stat_map" and "\<forall>vs \<in> set vss. length vs = MAX_RPM_PARAMS" and "\<forall>n. malloc_ok E n"
  shows "extract_platform_stats E (replicate (MAX_PLATFORM_STATS * MAX_RPM_PARAMS) 0) = Ret (0, concat vss)"
proof -
  have "length rpm_stat_map = MAX_PLATFORM_STATS" by code_simp
  then show ?thesis
    using extract_loop_sections [OF rpm_table(1), of E "[]" rpm_stat_map vss "[]" 1] rpm_table(2) assms
    by (simp add: extract_platform_stats_def extract_stats_def)
qed

theorem platform_stats_roundtrip_witness:
  "extract_platform_stats sample_stats_env (replicate (MAX_PLATFORM_STATS * MAX_RPM_PARAMS) 0) =
     Ret (0, [5, 70, 5, 70, 5, 70, 5, 70, 5, 70, 5, 70])"
proof -
  let ?vss = "replicate 6 [5, 70 :: 64 word]"
  have "length ?vss = length rpm_stat_map" "\<forall>vs \<in> set ?vss. length vs = MAX_RPM_PARAMS"
    by (simp_all add: rpm_stat_map_def MAX_RPM_PARAMS_def)
  then have "extract_platform_stats sample_stats_env (replicate (MAX_PLATFORM_STATS * MAX_RPM_PARAMS) 0) = Ret (0, concat ?vss)"
    by (intro platform_stats_roundtrip) (simp_all add: sample_stats_env_def)
  then show ?thesis by (simp add: eval_nat_numeral(2,3) replicate_Suc)
qed

text \<open>
  Where a section lacks a parameter the loop reads on into the next one: here the duration of the
  second voter is taken for that of the first, and the second is left without any.
\<close>
theorem section_misattributed:
  "extract_platform_stats
     \<lparr>stat_file = (\<lambda>_. Some (''APSS'' @ [newline] @ ''XO Count:1'' @ [newline] @ ''MPSS'' @ [newline]
        @ ''Accumulated XO duration:2'' @ [newline] @ ''XO Count:3'' @ [newline])), open_errno = 0, malloc_ok = (\<lambda>_. True)\<rparr>
     (replicate 12 0) = Ret (0, [0, 0, 0, 0, 2, 1, 0, 0, 0, 0, 0, 0])"
  by code_simp

end
