(* ===== verification/Lights.thy ===== *)
theory Lights
  imports Decimal Outcome "HOL-Library.Word"
begin

text \<open>
  \<^verbatim>\<open>lights/Lights.{h,cpp}\<close>: the lights service. Colours are 32-bit words in the layout
  AARRGGBB, and the brightness arithmetic is that of \<open>uint32_t\<close>, which wraps.

  The numbers of the light types are generated from the interface definition, and whether a
  sysfs file can be written or read is up to the kernel: both are parameters (\<open>lights_env\<close>).
  Every attempt to write a file is logged with its success.
\<close>

unbundle bit_operations_syntax

section \<open>Definitions\<close>

datatype FlashMode = NONE | TIMED | HARDWARE | OtherFlash int

datatype LightType = NOTIFICATIONS | BATTERY | BACKLIGHT

record HwLightState =
  color :: "32 word"
  flashMode :: FlashMode
  flashOnMs :: int
  flashOffMs :: int

type_synonym file_log = "(string \<times> string \<times> bool) list"

record lights_env =
  light_id :: "LightType \<Rightarrow> int"
  file_ok :: "file_log \<Rightarrow> string \<Rightarrow> bool"
  file_content :: "file_log \<Rightarrow> string \<Rightarrow> string option"

definition kAvailableLights :: "LightType list" where
  "kAvailableLights = [NOTIFICATIONS, BATTERY]"

record Lights =
  notif_states :: "HwLightState list"
  file_writes :: file_log

definition CHARGING_ATTR :: "string \<Rightarrow> string" where
  "CHARGING_ATTR x = ''/sys/class/leds/charging/'' @ x"

definition LCD_LED :: string where
  "LCD_LED = ''/sys/class/leds/lcd-backlight/''"

definition WriteToFile :: "lights_env \<Rightarrow> string \<Rightarrow> string \<Rightarrow> Lights \<Rightarrow> bool \<times> Lights" where
  "WriteToFile E path content l =
     (let ok = file_ok E (file_writes l) path
      in (ok, l\<lparr>file_writes := file_writes l @ [(path, content, ok)]\<rparr>))"

subsection \<open>Brightness\<close>

text \<open>The weighted sum of the three channels.\<close>

definition luma :: "32 word \<Rightarrow> 32 word \<Rightarrow> 32 word \<Rightarrow> 32 word" where
  "luma red green blue = drop_bit 8 (77 * red + 150 * green + 29 * blue)"

text \<open>Here the colour is an \<open>int32_t\<close>, and the shifts are arithmetic.\<close>

definition getBrightness :: "HwLightState \<Rightarrow> 32 word" where
  "getBrightness state =
     (let alpha = signed_drop_bit 24 (color state) AND 0xFF;
          red = signed_drop_bit 16 (color state) AND 0xFF;
          green = signed_drop_bit 8 (color state) AND 0xFF;
          blue = color state AND 0xFF
      in luma (red * alpha div 0xFF) (green * alpha div 0xFF) (blue * alpha div 0xFF))"

definition RgbaToBrightness :: "32 word \<Rightarrow> 32 word" where
  "RgbaToBrightness c =
     (let alpha = drop_bit 24 c AND 0xFF;
          red = drop_bit 16 c AND 0xFF;
          green = drop_bit 8 c AND 0xFF;
          blue = c AND 0xFF
      in if alpha \<noteq> 0xFF \<and> alpha \<noteq> 0
         then luma (red * alpha div 0xFF) (green * alpha div 0xFF) (blue * alpha div 0xFF)
         else luma red green blue)"

definition IsLit :: "32 word \<Rightarrow> bool" where
  "IsLit c \<longleftrightarrow> c AND 0x00ffffff \<noteq> 0"

definition scaleBrightness :: "32 word \<Rightarrow> 32 word \<Rightarrow> 32 word" where
  "scaleBrightness brightness maxBrightness =
     (if brightness = 0 then 0
      else (brightness - 1) * (maxBrightness - 19) div (0xFF - 1) + 19)"

definition getScaledBrightness :: "HwLightState \<Rightarrow> 32 word \<Rightarrow> 32 word" where
  "getScaledBrightness state maxBrightness = scaleBrightness (getBrightness state) maxBrightness"

subsection \<open>The notification light\<close>

definition write_constant :: "lights_env \<Rightarrow> HwLightState \<Rightarrow> Lights \<Rightarrow> Lights" where
  "write_constant E state l =
     snd (WriteToFile E (CHARGING_ATTR ''brightness'') (show_int (uint (RgbaToBrightness (color state)))) l)"

definition write_timed :: "lights_env \<Rightarrow> HwLightState \<Rightarrow> Lights \<Rightarrow> Lights" where
  "write_timed E state l =
     (let (ok1, l1) = WriteToFile E (CHARGING_ATTR ''delay_off'') (show_int (flashOffMs state)) l;
          (ok2, l2) = WriteToFile E (CHARGING_ATTR ''delay_on'') (show_int (flashOnMs state)) l1
      in if ok1 \<and> ok2 then l2 else write_constant E state l2)"

definition ApplyNotificationState :: "lights_env \<Rightarrow> HwLightState \<Rightarrow> Lights \<Rightarrow> Lights" where
  "ApplyNotificationState E state l =
     (let blink = flashOnMs state > 0 \<and> flashOffMs state > 0
      in case flashMode state of
           HARDWARE \<Rightarrow>
             let (ok, l1) = WriteToFile E (CHARGING_ATTR ''breath'') (show_int (of_bool blink)) l
             in if ok then l1 else write_timed E state l1
         | TIMED \<Rightarrow> write_timed E state l
         | _ \<Rightarrow> write_constant E state l)"

subsection \<open>The backlight\<close>

text \<open>\<open>set\<close> writes nothing where the file does not open.\<close>

definition set_file :: "lights_env \<Rightarrow> string \<Rightarrow> int \<Rightarrow> Lights \<Rightarrow> Lights" where
  "set_file E path value l = snd (WriteToFile E path (show_int value) l)"

definition getMaxBrightness :: "lights_env \<Rightarrow> string \<Rightarrow> Lights \<Rightarrow> int option" where
  "getMaxBrightness E path l =
     (case file_content E (file_writes l) path of None \<Rightarrow> Some 0 | Some text \<Rightarrow> stream_int text)"

definition handleBacklight :: "lights_env \<Rightarrow> HwLightState \<Rightarrow> Lights \<Rightarrow> Lights outcome" where
  "handleBacklight E state l =
     obind (arith (getMaxBrightness E (LCD_LED @ ''max_brightness'') l)) (\<lambda>maxBrightness.
       let brightness = getScaledBrightness state (word_of_int maxBrightness)
       in Ret (set_file E (LCD_LED @ ''brightness'') (sint brightness) l))"

subsection \<open>The service\<close>

fun save_state :: "lights_env \<Rightarrow> int \<Rightarrow> HwLightState \<Rightarrow> LightType list \<Rightarrow> HwLightState list \<Rightarrow> HwLightState list option" where
  "save_state E i state (t # ts) (s # ss) =
     (if light_id E t = i then Some (state # ss) else map_option ((#) s) (save_state E i state ts ss))"
| "save_state E i state _ _ = None"

fun apply_first :: "lights_env \<Rightarrow> LightType list \<Rightarrow> HwLightState list \<Rightarrow> Lights \<Rightarrow> Lights" where
  "apply_first E (t # ts) (s # ss) l =
     (if IsLit (color s) \<or> t = BATTERY then ApplyNotificationState E s l else apply_first E ts ss l)"
| "apply_first E _ _ l = l"

definition setLightState :: "lights_env \<Rightarrow> int \<Rightarrow> HwLightState \<Rightarrow> Lights \<Rightarrow> (status \<times> Lights) outcome" where
  "setLightState E i state l =
     (if i = light_id E BACKLIGHT then obind (handleBacklight E state l) (\<lambda>l1. Ret (STATUS_OK, l1))
      else case save_state E i state kAvailableLights (notif_states l) of
        None \<Rightarrow> Ret (EX_UNSUPPORTED_OPERATION, l)
      | Some states \<Rightarrow>
          let l1 = l\<lparr>notif_states := states\<rparr>
          in Ret (STATUS_OK, apply_first E kAvailableLights (notif_states l1) l1))"

definition getLights :: "lights_env \<Rightarrow> (int \<times> int \<times> LightType) list" where
  "getLights E = map (\<lambda>t. (light_id E t, 0, t)) kAvailableLights @ [(light_id E BACKLIGHT, 0, BACKLIGHT)]"

subsection \<open>What the service promises\<close>

text \<open>The state of each indicator, and the one that is to be shown.\<close>

definition indicator :: "Lights \<Rightarrow> LightType \<Rightarrow> HwLightState option" where
  "indicator l = map_of (zip kAvailableLights (notif_states l))"

definition shown :: "(LightType \<Rightarrow> HwLightState option) \<Rightarrow> HwLightState option" where
  "shown st = (case st NOTIFICATIONS of Some s \<Rightarrow> if IsLit (color s) then Some s else st BATTERY | None \<Rightarrow> st BATTERY)"

definition lights_wf :: "Lights \<Rightarrow> bool" where
  "lights_wf l \<longleftrightarrow> length (notif_states l) = length kAvailableLights"

definition sample_lights_env :: lights_env where
  "sample_lights_env =
     \<lparr>light_id = (\<lambda>t. case t of BACKLIGHT \<Rightarrow> 0 | BATTERY \<Rightarrow> 3 | NOTIFICATIONS \<Rightarrow> 4),
      file_ok = (\<lambda>_ path. path \<noteq> CHARGING_ATTR ''breath''), file_content = (\<lambda>_ _. Some ''2047'')\<rparr>"

definition sample_light :: HwLightState where
  "sample_light = \<lparr>color = 0xFF00FF00, flashMode = NONE, flashOnMs = 0, flashOffMs = 0\<rparr>"

section \<open>Brightness\<close>

lemma channel_le: "(c::32 word) AND 0xFF \<le> 0xFF"
  by (rule word_and_le1)

lemma luma_uint:
  assumes "uint r \<le> 255" "uint g \<le> 255" "uint b \<le> 255"
  shows "uint (luma r g b) = (77 * uint r + 150 * uint g + 29 * uint b) div 256"
proof -
  have "uint (77 * r + 150 * g + 29 * b) = 77 * uint r + 150 * uint g + 29 * uint b"
    using assms uint_ge_0 [of r] uint_ge_0 [of g] uint_ge_0 [of b]
    by (simp add: uint_word_ariths take_bit_eq_mod)
  then show ?thesis by (simp add: luma_def drop_bit_eq_div uint_div)
qed

lemma byte: "uint ((c::32 word) AND 0xFF) \<le> 255"
  using channel_le [of c] by (simp add: word_le_def)

lemma scaled_channel:
  assumes "uint (c::32 word) \<le> 255" "uint a \<le> 255"
  shows "uint (c * a div 0xFF) = uint c * uint a div 255 \<and> uint (c * a div 0xFF) \<le> 255"
proof -
  have m: "uint c * uint a \<le> 255 * 255" using assms uint_ge_0 by (intro mult_mono) auto
  then have "uint (c * a) = uint c * uint a"
    using uint_ge_0 [of c] uint_ge_0 [of a] by (simp add: uint_word_ariths take_bit_eq_mod)
  then show ?thesis using m by (simp add: uint_div)
qed

lemma luma_le: "uint r \<le> 255 \<Longrightarrow> uint g \<le> 255 \<Longrightarrow> uint b \<le> 255 \<Longrightarrow> uint (luma r g b) \<le> 255"
  by (simp add: luma_uint)

lemma mask_byte: "(0xFF :: 32 word) = mask 8"
  by (simp add: mask_eq_exp_minus_1)

lemma signed_channel: "n \<le> 24 \<Longrightarrow> signed_drop_bit n (c::32 word) AND 0xFF = drop_bit n c AND 0xFF"
  unfolding mask_byte
  by (rule bit_eqI) (auto simp: bit_and_iff bit_mask_iff bit_signed_drop_bit_iff bit_drop_bit_eq)

lemma full_alpha: "uint (c::32 word) \<le> 255 \<Longrightarrow> c * 0xFF div 0xFF = c"
  using scaled_channel [of c "0xFF"] by (simp add: word_uint_eq_iff)

lemma RgbaToBrightness_le: "uint (RgbaToBrightness c) \<le> 255"
  by (auto simp: RgbaToBrightness_def Let_def intro!: luma_le byte scaled_channel [THEN conjunct2])

lemma getBrightness_Rgba:
  "getBrightness s = (if drop_bit 24 (color s) AND 0xFF = 0 then 0 else RgbaToBrightness (color s))"
  by (auto simp: getBrightness_def RgbaToBrightness_def Let_def signed_channel full_alpha byte)
    (simp add: luma_def)

lemma getBrightness_le: "uint (getBrightness s) \<le> 255"
  by (simp add: getBrightness_Rgba RgbaToBrightness_le)

text \<open>The scaling does not wrap for a sensible maximum.\<close>

lemma scaleBrightness_uint:
  assumes "b \<noteq> 0" "uint b \<le> 255" "19 \<le> mx" "mx \<le> 16909339"
  shows "uint (scaleBrightness b (word_of_int mx)) = (uint b - 1) * (mx - 19) div 254 + 19
    \<and> 19 \<le> (uint b - 1) * (mx - 19) div 254 + 19 \<and> (uint b - 1) * (mx - 19) div 254 + 19 \<le> mx"
proof -
  have "uint b \<noteq> 0" using assms(1) by (simp add: word_uint_eq_iff)
  then have b: "1 \<le> uint b" using uint_ge_0 [of b] by linarith
  have "(uint b - 1) * (mx - 19) \<le> 254 * (mx - 19)" using assms b by (intro mult_right_mono) auto
  moreover have p: "0 \<le> (uint b - 1) * (mx - 19)" using assms b by simp
  ultimately have q: "(uint b - 1) * (mx - 19) < 2 ^ 32" "(uint b - 1) * (mx - 19) div 254 \<le> mx - 19"
    using assms by auto
  have "uint (b - 1) = uint b - 1" "uint (word_of_int mx - 19 :: 32 word) = mx - 19"
    using assms b by (simp_all add: uint_word_ariths uint_word_of_int take_bit_eq_mod)
  then have "uint ((b - 1) * (word_of_int mx - 19)) = (uint b - 1) * (mx - 19)"
    using p q by (simp add: uint_word_ariths take_bit_eq_mod)
  moreover have "0 \<le> (uint b - 1) * (mx - 19) div 254" using p by (simp add: pos_imp_zdiv_nonneg_iff)
  ultimately show ?thesis
    using assms q by (simp add: scaleBrightness_def uint_word_arith_bintrs uint_div take_bit_eq_mod)
qed

lemma small_sint: "uint (w :: 32 word) < 2 ^ 31 \<Longrightarrow> sint w = uint w"
  using signed_take_bit_int_eq_self [of 31 "uint w"] uint_ge_0 [of w] by (simp add: sint_uint)

section \<open>The indicators\<close>

lemma WriteToFile_states [simp]: "notif_states (snd (WriteToFile E path c l)) = notif_states l"
  by (simp add: WriteToFile_def Let_def)

lemma WriteToFile_update:
  "WriteToFile E path c (l\<lparr>notif_states := ss\<rparr>) =
     (fst (WriteToFile E path c l), (snd (WriteToFile E path c l))\<lparr>notif_states := ss\<rparr>)"
  by (simp add: WriteToFile_def Let_def)

lemma ApplyNotificationState_update:
  "ApplyNotificationState E s (l\<lparr>notif_states := ss\<rparr>) = (ApplyNotificationState E s l)\<lparr>notif_states := ss\<rparr>"
  by (auto simp: ApplyNotificationState_def write_timed_def write_constant_def Let_def WriteToFile_update
      case_prod_unfold split: FlashMode.split)

lemma two_states: "lights_wf l \<longleftrightarrow> (\<exists>a b. notif_states l = [a, b])"
  by (auto simp: lights_wf_def kAvailableLights_def numeral_2_eq_2 length_Suc_conv)

section \<open>Properties\<close>

text \<open>
  The two functions that compute the brightness of a colour, one on signed and one on
  unsigned numbers, agree except on the colours with no alpha, where the one for the backlight
  gives 0 and the one for the indicator takes the colour as opaque. Neither gives more than 255.
\<close>
theorem brightness_agree:
  "getBrightness s = (if drop_bit 24 (color s) AND 0xFF = 0 then 0 else RgbaToBrightness (color s))
   \<and> uint (RgbaToBrightness (color s)) \<le> 255"
  by (simp add: getBrightness_Rgba RgbaToBrightness_le)

text \<open>
  C40: Where the panel reports a maximum of at least 19 (and at most 16909339, beyond which the
  product wraps), setting the backlight writes one value: 0 for a dark colour, and otherwise a
  value from 19 to the maximum, which a bright white reaches exactly. No operation wraps.
\<close>
theorem backlight_in_range:
  assumes "file_content E (file_writes l) (LCD_LED @ ''max_brightness'') = Some (show_int mx @ rest)"
    and "rest = [] \<or> digit_val (hd rest) = None" and "19 \<le> mx" and "mx \<le> 16909339"
  shows "\<exists>v. setLightState E (light_id E BACKLIGHT) state l =
      Ret (STATUS_OK, set_file E (LCD_LED @ ''brightness'') v l)
    \<and> (if getBrightness state = 0 then v = 0 else 19 \<le> v \<and> v \<le> mx)
    \<and> (getBrightness state = 255 \<longrightarrow> v = mx)"
proof -
  let ?b = "getBrightness state" and ?w = "getScaledBrightness state (word_of_int mx)"
  have mx: "stream_int (show_int mx @ rest) = Some mx"
    using assms by (intro stream_int_show) (auto simp: in_signed_def)
  have "setLightState E (light_id E BACKLIGHT) state l =
      Ret (STATUS_OK, set_file E (LCD_LED @ ''brightness'') (sint ?w) l)"
    by (simp add: setLightState_def handleBacklight_def getMaxBrightness_def assms(1) mx defined_or_def Let_def)
  moreover have "(if ?b = 0 then sint ?w = 0 else 19 \<le> sint ?w \<and> sint ?w \<le> mx) \<and> (?b = 255 \<longrightarrow> sint ?w = mx)"
  proof (cases "?b = 0")
    case False
    note u = scaleBrightness_uint [OF False getBrightness_le assms(3,4)]
    then have "sint ?w = uint ?w" using assms by (intro small_sint) (auto simp: getScaledBrightness_def)
    with u False assms show ?thesis by (auto simp: getScaledBrightness_def)
  qed (simp add: getScaledBrightness_def scaleBrightness_def)
  ultimately show ?thesis by blast
qed

theorem backlight_in_range_witness:
  "\<exists>v l. setLightState sample_lights_env 0 sample_light \<lparr>notif_states = [], file_writes = []\<rparr> = Ret (STATUS_OK, l)
    \<and> file_writes l = [(LCD_LED @ ''brightness'', show_int v, True)] \<and> 19 \<le> v \<and> v \<le> 2047"
proof -
  let ?l = "\<lparr>notif_states = [], file_writes = []\<rparr>"
  have "getBrightness sample_light \<noteq> 0" by code_simp
  moreover have "show_int 2047 = ''2047''" by code_simp
  moreover have "light_id sample_lights_env BACKLIGHT = 0" by (simp add: sample_lights_env_def)
  moreover have path: "LCD_LED @ ''brightness'' \<noteq> CHARGING_ATTR ''breath''" by code_simp
  ultimately obtain v where "setLightState sample_lights_env 0 sample_light ?l =
      Ret (STATUS_OK, set_file sample_lights_env (LCD_LED @ ''brightness'') v ?l)" "19 \<le> v" "v \<le> 2047"
    using backlight_in_range [of sample_lights_env ?l 2047 "[]" sample_light] by (auto simp: sample_lights_env_def)
  with path show ?thesis
    by (intro exI [of _ v] exI [of _ "set_file sample_lights_env (LCD_LED @ ''brightness'') v ?l"])
      (simp add: set_file_def WriteToFile_def Let_def sample_lights_env_def)
qed

text \<open>
  Setting an indicator replaces the state of that indicator alone, and the light then shows
  the notification if it is lit and the battery otherwise: the one light follows the order of
  priority whatever the calls were.
\<close>
theorem lights_priority:
  assumes "lights_wf l" and "inj (light_id E)" and "t \<noteq> BACKLIGHT"
  shows "\<exists>l' s. setLightState E (light_id E t) state l = Ret (STATUS_OK, l') \<and> lights_wf l'
    \<and> indicator l' = (indicator l)(t \<mapsto> state) \<and> shown (indicator l') = Some s
    \<and> file_writes l' = file_writes (ApplyNotificationState E s l)"
proof -
  obtain a b where l: "notif_states l = [a, b]" using assms(1) by (auto simp: two_states)
  have ids: "light_id E t = light_id E t' \<longleftrightarrow> t = t'" for t t' using assms(2) by (simp add: inj_eq)
  show ?thesis
    using assms(3)
    by (cases t)
      (auto simp: setLightState_def ids kAvailableLights_def l Let_def ApplyNotificationState_update lights_wf_def
        indicator_def shown_def fun_eq_iff)
qed

theorem lights_priority_witness:
  "\<exists>l. setLightState sample_lights_env 3 sample_light
      \<lparr>notif_states = [sample_light\<lparr>color := 0xFF000000\<rparr>, sample_light], file_writes = []\<rparr> = Ret (STATUS_OK, l)
    \<and> shown (indicator l) = Some sample_light"
proof -
  let ?l = "\<lparr>notif_states = [sample_light\<lparr>color := 0xFF000000\<rparr>, sample_light], file_writes = []\<rparr>"
  have "lights_wf ?l" by (simp add: two_states)
  moreover have "inj (light_id sample_lights_env)" by (auto simp: inj_def sample_lights_env_def split: LightType.splits)
  ultimately obtain l where "setLightState sample_lights_env (light_id sample_lights_env BATTERY) sample_light ?l = Ret (STATUS_OK, l)"
      "indicator l = (indicator ?l)(BATTERY \<mapsto> sample_light)"
    using lights_priority [of ?l sample_lights_env BATTERY sample_light] by auto
  moreover have "\<not> IsLit 0xFF000000" by code_simp
  ultimately show ?thesis
    by (auto simp: sample_lights_env_def shown_def indicator_def kAvailableLights_def)
qed

text \<open>
  An unreadable maximum counts as 0, which is less than the 19 subtracted from it: the product
  wraps, and full brightness becomes a number far above any panel's maximum.
\<close>
theorem backlight_wraps:
  assumes "file_content E (file_writes l) (LCD_LED @ ''max_brightness'') = None"
    and "getBrightness state = 255"
  shows "setLightState E (light_id E BACKLIGHT) state l =
    Ret (STATUS_OK, set_file E (LCD_LED @ ''brightness'') 16909320 l)"
proof -
  have "sint (scaleBrightness 255 0) = 16909320" by code_simp
  with assms show ?thesis
    by (simp add: setLightState_def handleBacklight_def getMaxBrightness_def defined_or_def Let_def getScaledBrightness_def)
qed

end
