(* ===== verification/UsbGadget.thy ===== *)
theory UsbGadget
  imports Outcome "HOL-Library.Word"
begin

text \<open>
  \<^verbatim>\<open>usb/gadget/UsbGadget.{h,cpp}\<close>: the service that chooses the functions the device offers
  over USB. A set of functions is a 64-bit word with a bit for each.

  The functions of the pixelusb library, the ffs monitor, the numbers of the functions and the
  sysfs files are parameters (\<open>gadget_env\<close>): every call of them is logged, and its result may
  depend on all the calls before it. \<open>None\<close> is a member the constructor leaves uninitialised.
\<close>

unbundle bit_operations_syntax

section \<open>Definitions\<close>

datatype gadget_status = SUCCESS | ERROR | FUNCTIONS_APPLIED | FUNCTIONS_NOT_APPLIED | CONFIGURATION_NOT_SUPPORTED

datatype GadgetFunction = GF_NONE | ADB | ACCESSORY | MTP | MIDI | PTP | RNDIS | AUDIO_SOURCE

datatype gadget_call =
    ResetGadget
  | MonitorReset
  | SetVidPid string string
  | AddGenericAndroidFunctions "64 word"
  | AddAdb
  | WritePullup string
  | RegisterFunctionsAppliedCallback
  | StartMonitor
  | WaitForPullUp int
  | SetCurrentUsbFunctionsCb "64 word" gadget_status
  | GetCurrentUsbFunctionsCb "64 word" gadget_status

type_synonym gadget_log = "gadget_call list"

record gadget_env =
  fn_bits :: "GadgetFunction \<Rightarrow> 64 word"
  os_desc_readable :: bool
  controller_prop :: string
  resetGadget :: "gadget_log \<Rightarrow> gadget_status"
  isMonitorRunning :: "gadget_log \<Rightarrow> bool"
  getVendorFunctions :: "gadget_log \<Rightarrow> string"
  setVidPid :: "gadget_log \<Rightarrow> string \<Rightarrow> string \<Rightarrow> gadget_status"
  addGenericAndroidFunctions :: "gadget_log \<Rightarrow> 64 word \<Rightarrow> gadget_status \<times> bool"
  addAdb :: "gadget_log \<Rightarrow> gadget_status"
  pullup_written :: "gadget_log \<Rightarrow> string \<Rightarrow> bool"
  waitForPullUp :: "gadget_log \<Rightarrow> int \<Rightarrow> bool"

record UsbGadget =
  mCurrentUsbFunctions :: "64 word option"
  mCurrentUsbFunctionsApplied :: "bool option"
  mGadgetName :: string
  gadget_calls :: gadget_log

definition gcall :: "gadget_call \<Rightarrow> UsbGadget \<Rightarrow> UsbGadget" where
  "gcall c g = g\<lparr>gadget_calls := gadget_calls g @ [c]\<rparr>"

definition UsbGadget_new :: "gadget_env \<Rightarrow> UsbGadget outcome" where
  "UsbGadget_new E =
     (if \<not> os_desc_readable E then Abort
      else if controller_prop E = [] then Abort
      else Ret \<lparr>mCurrentUsbFunctions = None, mCurrentUsbFunctionsApplied = None,
                mGadgetName = controller_prop E, gadget_calls = []\<rparr>)"

text \<open>Run by the thread of the ffs monitor once it has been registered.\<close>

definition currentFunctionsAppliedCallback :: "bool \<Rightarrow> UsbGadget \<Rightarrow> UsbGadget" where
  "currentFunctionsAppliedCallback functionsApplied g = g\<lparr>mCurrentUsbFunctionsApplied := Some functionsApplied\<rparr>"

definition getCurrentUsbFunctions :: "UsbGadget \<Rightarrow> UsbGadget outcome" where
  "getCurrentUsbFunctions g =
     obind (arith (mCurrentUsbFunctions g)) (\<lambda>functions.
     obind (arith (mCurrentUsbFunctionsApplied g)) (\<lambda>applied.
       Ret (gcall (GetCurrentUsbFunctionsCb functions (if applied then FUNCTIONS_APPLIED else FUNCTIONS_NOT_APPLIED)) g)))"

definition tearDownGadget :: "gadget_env \<Rightarrow> UsbGadget \<Rightarrow> gadget_status \<times> UsbGadget" where
  "tearDownGadget E g =
     (let st = resetGadget E (gadget_calls g);
          g1 = gcall ResetGadget g
      in if st \<noteq> SUCCESS then (ERROR, g1)
         else if isMonitorRunning E (gadget_calls g1) then (SUCCESS, gcall MonitorReset g1)
         else (SUCCESS, g1))"

text \<open>
  The cases of the switch, in its order: the functions, whether other vendor functions are
  refused, and the vendor and product ids.
\<close>

definition vid_pid_cases :: "(GadgetFunction list \<times> bool \<times> string \<times> string) list" where
  "vid_pid_cases =
     [([MTP], True, ''0x22b8'', ''0x2e82''),
      ([ADB, MTP], True, ''0x22b8'', ''0x2e76''),
      ([RNDIS], True, ''0x22b8'', ''0x2e24''),
      ([ADB, RNDIS], True, ''0x22b8'', ''0x2e25''),
      ([PTP], True, ''0x22b8'', ''0x2e83''),
      ([ADB, PTP], True, ''0x22b8'', ''0x2e84''),
      ([ADB], True, ''0x22b8'', ''0x2E81''),
      ([MIDI], True, ''0x18d1'', ''0x4ee8''),
      ([ADB, MIDI], True, ''0x18d1'', ''0x4ee9''),
      ([ACCESSORY], False, ''0x18d1'', ''0x2d00''),
      ([ADB, ACCESSORY], False, ''0x18d1'', ''0x2d01''),
      ([AUDIO_SOURCE], False, ''0x18d1'', ''0x2d02''),
      ([ADB, AUDIO_SOURCE], False, ''0x18d1'', ''0x2d03''),
      ([ACCESSORY, AUDIO_SOURCE], False, ''0x18d1'', ''0x2d04''),
      ([ADB, ACCESSORY, AUDIO_SOURCE], False, ''0x18d1'', ''0x2d05'')]"

definition fn_word :: "gadget_env \<Rightarrow> GadgetFunction list \<Rightarrow> 64 word" where
  "fn_word E fs = fold (\<lambda>f w. w OR fn_bits E f) fs 0"

definition vid_pid :: "gadget_env \<Rightarrow> 64 word \<Rightarrow> (bool \<times> string \<times> string) option" where
  "vid_pid E functions = map_of (map (\<lambda>(fs, r). (fn_word E fs, r)) vid_pid_cases) functions"

definition validateAndSetVidPid :: "gadget_env \<Rightarrow> 64 word \<Rightarrow> UsbGadget \<Rightarrow> gadget_status \<times> UsbGadget" where
  "validateAndSetVidPid E functions g =
     (let vendorFunctions = getVendorFunctions E (gadget_calls g)
      in case vid_pid E functions of
           None \<Rightarrow> (CONFIGURATION_NOT_SUPPORTED, g)
         | Some (strict, vid, pid) \<Rightarrow>
             if strict \<and> \<not> (vendorFunctions = ''user'' \<or> vendorFunctions = []) then (CONFIGURATION_NOT_SUPPORTED, g)
             else (setVidPid E (gadget_calls g) vid pid, gcall (SetVidPid vid pid) g))"

definition write_pullup :: "gadget_env \<Rightarrow> string \<Rightarrow> UsbGadget \<Rightarrow> bool \<times> UsbGadget" where
  "write_pullup E value g = (pullup_written E (gadget_calls g) value, gcall (WritePullup value) g)"

definition UsbGadget_reset :: "gadget_env \<Rightarrow> UsbGadget \<Rightarrow> gadget_status \<times> UsbGadget" where
  "UsbGadget_reset E g =
     (let (down, g1) = write_pullup E ''none'' g
      in if \<not> down then (ERROR, g1)
         else
           let (up, g2) = write_pullup E (mGadgetName g1) g1
           in (if up then SUCCESS else ERROR, g2))"

text \<open>The last part of \<open>setupFunctions\<close>: pull up at once, or let the monitor do it.\<close>

definition pull_up :: "gadget_env \<Rightarrow> bool \<Rightarrow> 64 word \<Rightarrow> bool \<Rightarrow> int \<Rightarrow> UsbGadget \<Rightarrow> gadget_status \<times> UsbGadget" where
  "pull_up E ffsEnabled functions callback timeout g =
     (if \<not> ffsEnabled then
        let (up, g1) = write_pullup E (mGadgetName g) g
        in if \<not> up then (ERROR, g1)
           else
             let g2 = g1\<lparr>mCurrentUsbFunctionsApplied := Some True\<rparr>
             in (SUCCESS, if callback then gcall (SetCurrentUsbFunctionsCb functions SUCCESS) g2 else g2)
      else
        let g1 = gcall StartMonitor (gcall RegisterFunctionsAppliedCallback g)
        in (SUCCESS,
            if callback then
              let pullup = waitForPullUp E (gadget_calls g1) timeout
              in gcall (SetCurrentUsbFunctionsCb functions (if pullup then SUCCESS else ERROR)) (gcall (WaitForPullUp timeout) g1)
            else g1))"

definition setupFunctions :: "gadget_env \<Rightarrow> 64 word \<Rightarrow> bool \<Rightarrow> int \<Rightarrow> UsbGadget \<Rightarrow> gadget_status \<times> UsbGadget" where
  "setupFunctions E functions callback timeout g =
     (let (st, ffsEnabled) = addGenericAndroidFunctions E (gadget_calls g) functions;
          g1 = gcall (AddGenericAndroidFunctions functions) g
      in if st \<noteq> SUCCESS then (ERROR, g1)
         else if functions AND fn_bits E ADB \<noteq> 0 then
           let st2 = addAdb E (gadget_calls g1);
               g2 = gcall AddAdb g1
           in if st2 \<noteq> SUCCESS then (ERROR, g2) else pull_up E True functions callback timeout g2
         else pull_up E ffsEnabled functions callback timeout g1)"

definition setCurrentUsbFunctions :: "gadget_env \<Rightarrow> 64 word \<Rightarrow> bool \<Rightarrow> int \<Rightarrow> UsbGadget \<Rightarrow> UsbGadget" where
  "setCurrentUsbFunctions E functions callback timeout g =
     (let report = (\<lambda>(st, g). if callback then gcall (SetCurrentUsbFunctionsCb functions st) g else g);
          g0 = g\<lparr>mCurrentUsbFunctions := Some functions, mCurrentUsbFunctionsApplied := Some False\<rparr>;
          (st, g1) = tearDownGadget E g0
      in if st \<noteq> SUCCESS then report (st, g1)
         else if functions = fn_bits E GF_NONE then report (SUCCESS, g1)
         else
           let (st, g2) = validateAndSetVidPid E functions g1
           in if st \<noteq> SUCCESS then report (st, g2)
              else
                let (st, g3) = setupFunctions E functions callback timeout g2
                in if st \<noteq> SUCCESS then report (st, g3) else g3)"

subsection \<open>What a request does\<close>

text \<open>The stages a gadget goes through, and the reports to the client.\<close>

fun stage :: "gadget_call \<Rightarrow> nat" where
  "stage ResetGadget = 0"
| "stage MonitorReset = 1"
| "stage (SetVidPid _ _) = 2"
| "stage (AddGenericAndroidFunctions _) = 3"
| "stage AddAdb = 4"
| "stage (WritePullup _) = 5"
| "stage RegisterFunctionsAppliedCallback = 6"
| "stage StartMonitor = 7"
| "stage (WaitForPullUp _) = 8"
| "stage _ = 9"

fun reports :: "gadget_log \<Rightarrow> (64 word \<times> gadget_status) list" where
  "reports [] = []"
| "reports (SetCurrentUsbFunctionsCb f st # cs) = (f, st) # reports cs"
| "reports (_ # cs) = reports cs"

definition new_calls :: "UsbGadget \<Rightarrow> UsbGadget \<Rightarrow> gadget_log" where
  "new_calls g g' = drop (length (gadget_calls g)) (gadget_calls g')"

text \<open>The device is visible to the host once this has been called.\<close>

definition brings_up :: "gadget_log \<Rightarrow> bool" where
  "brings_up cs \<longleftrightarrow> StartMonitor \<in> set cs \<or> (\<exists>name. WritePullup name \<in> set cs)"

text \<open>
  What one step of a request may add to the log: calls of stages from \<open>lo\<close> on, in order, and
  one report if the step ends the request.
\<close>

definition adds :: "nat \<Rightarrow> gadget_log \<Rightarrow> bool" where
  "adds lo new \<longleftrightarrow> sorted (map stage new) \<and> (\<forall>c \<in> set new. lo \<le> stage c)"

definition so_far :: "gadget_env \<Rightarrow> 64 word \<Rightarrow> UsbGadget \<Rightarrow> UsbGadget \<Rightarrow> gadget_log \<Rightarrow> bool" where
  "so_far E functions g g' new \<longleftrightarrow>
     gadget_calls g' = gadget_calls g @ new \<and> adds 0 new \<and> new \<noteq> [] \<and> hd new = ResetGadget
     \<and> mCurrentUsbFunctions g' = Some functions
     \<and> (brings_up new \<longrightarrow> (\<exists>vid pid. SetVidPid vid pid \<in> set new) \<and> AddGenericAndroidFunctions functions \<in> set new
          \<and> (functions AND fn_bits E ADB \<noteq> 0 \<longrightarrow> AddAdb \<in> set new))
     \<and> (mCurrentUsbFunctionsApplied g' = Some False
        \<or> WritePullup (mGadgetName g) \<in> set new \<and> mCurrentUsbFunctionsApplied g' = Some True)"

definition request_log :: "gadget_env \<Rightarrow> 64 word \<Rightarrow> bool \<Rightarrow> UsbGadget \<Rightarrow> UsbGadget \<Rightarrow> bool" where
  "request_log E functions callback g g' \<longleftrightarrow>
     (\<exists>r. so_far E functions g g' (new_calls g g')
        \<and> reports (new_calls g g') = (if callback then [(functions, r)] else []))"

definition sample_gadget_env :: gadget_env where
  "sample_gadget_env =
     \<lparr>fn_bits = (\<lambda>f. case f of GF_NONE \<Rightarrow> 0 | ADB \<Rightarrow> 1 | ACCESSORY \<Rightarrow> 2 | MTP \<Rightarrow> 4 | MIDI \<Rightarrow> 8 | PTP \<Rightarrow> 16 | RNDIS \<Rightarrow> 32
        | AUDIO_SOURCE \<Rightarrow> 64),
      os_desc_readable = True, controller_prop = ''a600000.dwc3'', resetGadget = (\<lambda>_. SUCCESS), isMonitorRunning = (\<lambda>_. False),
      getVendorFunctions = (\<lambda>_. ''user''), setVidPid = (\<lambda>_ _ _. SUCCESS), addGenericAndroidFunctions = (\<lambda>_ _. (SUCCESS, False)),
      addAdb = (\<lambda>_. SUCCESS), pullup_written = (\<lambda>_ _. True), waitForPullUp = (\<lambda>_ _. True)\<rparr>"

definition sample_gadget :: UsbGadget where
  "sample_gadget =
     \<lparr>mCurrentUsbFunctions = None, mCurrentUsbFunctionsApplied = None, mGadgetName = ''a600000.dwc3'', gadget_calls = []\<rparr>"

section \<open>The calls of one request\<close>

lemma gcall_frame [simp]:
  "gadget_calls (gcall c g) = gadget_calls g @ [c]" "mCurrentUsbFunctions (gcall c g) = mCurrentUsbFunctions g"
  "mCurrentUsbFunctionsApplied (gcall c g) = mCurrentUsbFunctionsApplied g" "mGadgetName (gcall c g) = mGadgetName g"
  by (simp_all add: gcall_def)

lemma reports_append [simp]: "reports (as @ bs) = reports as @ reports bs"
  by (induction as rule: reports.induct) auto

lemma brings_up_append [simp]: "brings_up (as @ bs) \<longleftrightarrow> brings_up as \<or> brings_up bs"
  by (auto simp: brings_up_def)

lemma brings_up_Cons [simp]:
  "brings_up (c # cs) \<longleftrightarrow> c = StartMonitor \<or> (\<exists>name. c = WritePullup name) \<or> brings_up cs" "\<not> brings_up []"
  by (auto simp: brings_up_def)

lemma stage_le: "stage c \<le> 9"
  by (cases c) auto

lemma request_logI:
  assumes "so_far E functions g g' n" and "\<exists>r. reports n = (if callback then [(functions, r)] else [])"
  shows "request_log E functions callback g g'"
proof -
  have "new_calls g g' = n" using assms(1) by (simp add: so_far_def new_calls_def)
  with assms show ?thesis by (simp add: request_log_def)
qed

lemma adds_append: "adds lo as \<Longrightarrow> adds hi bs \<Longrightarrow> (\<forall>c \<in> set as. stage c \<le> hi) \<Longrightarrow> lo \<le> hi \<Longrightarrow> adds lo (as @ bs)"
  by (auto simp: adds_def sorted_append intro: order_trans)

lemma pull_up_calls:
  assumes "pull_up E ffs functions callback timeout g = (st, g')"
  shows "\<exists>new. gadget_calls g' = gadget_calls g @ new \<and> adds 5 new \<and> mCurrentUsbFunctions g' = mCurrentUsbFunctions g
    \<and> (if st = SUCCESS then \<exists>r. reports new = (if callback then [(functions, r)] else []) else reports new = [])
    \<and> (mCurrentUsbFunctionsApplied g' = mCurrentUsbFunctionsApplied g
       \<or> st = SUCCESS \<and> mCurrentUsbFunctionsApplied g' = Some True \<and> WritePullup (mGadgetName g) \<in> set new)"
proof (cases ffs)
  case True
  with assms show ?thesis
    by (intro exI [of _ "drop (length (gadget_calls g)) (gadget_calls g')"])
      (cases callback; auto simp: pull_up_def Let_def adds_def)
next
  case False
  with assms show ?thesis
    by (intro exI [of _ "drop (length (gadget_calls g)) (gadget_calls g')"])
      (auto simp: pull_up_def write_pullup_def Let_def adds_def split: if_splits)
qed

lemma setup_calls:
  assumes "setupFunctions E functions callback timeout g = (st, g')"
  shows "\<exists>new. gadget_calls g' = gadget_calls g @ new \<and> adds 3 new \<and> mCurrentUsbFunctions g' = mCurrentUsbFunctions g
    \<and> (if st = SUCCESS then \<exists>r. reports new = (if callback then [(functions, r)] else []) else reports new = [])
    \<and> (brings_up new \<longrightarrow> AddGenericAndroidFunctions functions \<in> set new
         \<and> (functions AND fn_bits E ADB \<noteq> 0 \<longrightarrow> AddAdb \<in> set new))
    \<and> (mCurrentUsbFunctionsApplied g' = mCurrentUsbFunctionsApplied g \<or> st = SUCCESS \<and> mCurrentUsbFunctionsApplied g' = Some True \<and> WritePullup (mGadgetName g) \<in> set new)"
proof -
  let ?g1 = "gcall (AddGenericAndroidFunctions functions) g" and ?adb = "functions AND fn_bits E ADB \<noteq> 0"
  let ?pre = "AddGenericAndroidFunctions functions # (if ?adb then [AddAdb] else [])"
  consider (fail) pre where "st = ERROR" "pre \<in> {[AddGenericAndroidFunctions functions], [AddGenericAndroidFunctions functions, AddAdb]}"
      "gadget_calls g' = gadget_calls g @ pre" "mCurrentUsbFunctions g' = mCurrentUsbFunctions g"
      "mCurrentUsbFunctionsApplied g' = mCurrentUsbFunctionsApplied g"
    | (ok) ffs where "pull_up E ffs functions callback timeout (if ?adb then gcall AddAdb ?g1 else ?g1) = (st, g')"
    using assms by (auto simp: setupFunctions_def Let_def case_prod_unfold split: if_splits)
  then show ?thesis
  proof cases
    case fail
    then show ?thesis by (intro exI [of _ pre]) (auto simp: adds_def)
  next
    case ok
    from pull_up_calls [OF ok] obtain new where new:
      "gadget_calls g' = gadget_calls g @ ?pre @ new" "adds 5 new" "mCurrentUsbFunctions g' = mCurrentUsbFunctions g"
      "if st = SUCCESS then \<exists>r. reports new = (if callback then [(functions, r)] else []) else reports new = []"
      "mCurrentUsbFunctionsApplied g' = mCurrentUsbFunctionsApplied g \<or> st = SUCCESS \<and> mCurrentUsbFunctionsApplied g' = Some True \<and> WritePullup (mGadgetName g) \<in> set new"
      by (cases ?adb) auto
    have "adds 3 (?pre @ new)" by (rule adds_append [OF _ new(2)]) (auto simp: adds_def)
    then show ?thesis using new by (intro exI [of _ "?pre @ new"]) auto
  qed
qed

lemma validate_calls:
  assumes "validateAndSetVidPid E functions g = (st, g')"
  shows "\<exists>new. gadget_calls g' = gadget_calls g @ new \<and> (new = [] \<or> (\<exists>vid pid. new = [SetVidPid vid pid]))
    \<and> (st = SUCCESS \<longrightarrow> new \<noteq> []) \<and> mCurrentUsbFunctions g' = mCurrentUsbFunctions g
    \<and> mCurrentUsbFunctionsApplied g' = mCurrentUsbFunctionsApplied g \<and> mGadgetName g' = mGadgetName g"
  using assms
  by (intro exI [of _ "drop (length (gadget_calls g)) (gadget_calls g')"])
    (auto simp: validateAndSetVidPid_def Let_def split: option.splits if_splits)

lemma tearDown_calls:
  assumes "tearDownGadget E g = (st, g')"
  shows "\<exists>new. gadget_calls g' = gadget_calls g @ new \<and> new \<in> {[ResetGadget], [ResetGadget, MonitorReset]}
    \<and> mCurrentUsbFunctions g' = mCurrentUsbFunctions g
    \<and> mCurrentUsbFunctionsApplied g' = mCurrentUsbFunctionsApplied g \<and> mGadgetName g' = mGadgetName g"
  using assms
  by (intro exI [of _ "drop (length (gadget_calls g)) (gadget_calls g')"])
    (auto simp: tearDownGadget_def Let_def split: if_splits)

text \<open>
  The log of a request so far: what it has added, and that nothing has been reported yet.
\<close>

lemma so_far_report:
  assumes "so_far E functions g h n" and "reports n = []"
  shows "request_log E functions callback g (if callback then gcall (SetCurrentUsbFunctionsCb functions st) h else h)"
proof (cases callback)
  case True
  have "adds 0 (n @ [SetCurrentUsbFunctionsCb functions st])"
    by (rule adds_append [of _ _ 9]) (use assms(1) in \<open>auto simp: so_far_def adds_def intro: stage_le\<close>)
  with True assms show ?thesis
    by (intro request_logI [of _ _ _ _ "n @ [SetCurrentUsbFunctionsCb functions st]"]) (auto simp: so_far_def hd_append)
next
  case False
  with assms show ?thesis by (auto intro: request_logI)
qed

lemma request_calls: "request_log E functions callback g (setCurrentUsbFunctions E functions callback timeout g)"
proof -
  define rep where "rep = (\<lambda>(st, g). if callback then gcall (SetCurrentUsbFunctionsCb functions st) g else g)"
  let ?g0 = "g\<lparr>mCurrentUsbFunctions := Some functions, mCurrentUsbFunctionsApplied := Some False\<rparr>"
  obtain s1 g1 where t: "tearDownGadget E ?g0 = (s1, g1)" by fastforce
  obtain s2 g2 where v: "validateAndSetVidPid E functions g1 = (s2, g2)" by fastforce
  obtain s3 g3 where u: "setupFunctions E functions callback timeout g2 = (s3, g3)" by fastforce
  from tearDown_calls [OF t] obtain n1 where n1: "gadget_calls g1 = gadget_calls g @ n1"
    "n1 \<in> {[ResetGadget], [ResetGadget, MonitorReset]}" "mCurrentUsbFunctions g1 = Some functions"
    "mCurrentUsbFunctionsApplied g1 = Some False" "mGadgetName g1 = mGadgetName g"
    by auto
  from validate_calls [OF v] n1 obtain n2 where n2: "gadget_calls g2 = gadget_calls g @ n1 @ n2"
    "n2 = [] \<or> (\<exists>vid pid. n2 = [SetVidPid vid pid])" "s2 = SUCCESS \<Longrightarrow> n2 \<noteq> []"
    "mCurrentUsbFunctions g2 = Some functions" "mCurrentUsbFunctionsApplied g2 = Some False" "mGadgetName g2 = mGadgetName g"
    by auto
  from setup_calls [OF u] n2 obtain n3 where n3: "gadget_calls g3 = gadget_calls g @ n1 @ n2 @ n3" "adds 3 n3"
    "mCurrentUsbFunctions g3 = Some functions"
    "if s3 = SUCCESS then \<exists>r. reports n3 = (if callback then [(functions, r)] else []) else reports n3 = []"
    "brings_up n3 \<Longrightarrow> AddGenericAndroidFunctions functions \<in> set n3
       \<and> (functions AND fn_bits E ADB \<noteq> 0 \<longrightarrow> AddAdb \<in> set n3)"
    "mCurrentUsbFunctionsApplied g3 = Some False \<or> s3 = SUCCESS \<and> mCurrentUsbFunctionsApplied g3 = Some True \<and> WritePullup (mGadgetName g) \<in> set n3"
    by auto
  have a2: "adds 0 (n1 @ n2)" using n1(2) n2(2) by (auto simp: adds_def)
  have a3: "adds 0 ((n1 @ n2) @ n3)" by (rule adds_append [OF a2 n3(2)]) (use n1(2) n2(2) in auto)
  have s1: "so_far E functions g g1 n1" and r1: "reports n1 = []" using n1 by (auto simp: so_far_def adds_def)
  have s2: "so_far E functions g g2 (n1 @ n2)" and r2: "reports (n1 @ n2) = []"
    using n1 n2 a2 by (auto simp: so_far_def)
  have s3: "so_far E functions g g3 (n1 @ n2 @ n3)" if "s2 = SUCCESS" "mCurrentUsbFunctionsApplied g3 = Some False \<or> s3 = SUCCESS"
  proof -
    obtain vid pid where "n2 = [SetVidPid vid pid]" using n2(2,3) \<open>s2 = SUCCESS\<close> by blast
    then have "SetVidPid vid pid \<in> set (n1 @ n2 @ n3)" by simp
    moreover have "brings_up (n1 @ n2 @ n3) \<longleftrightarrow> brings_up n3" using n1(2) n2(2) by auto
    moreover have "n1 @ n2 @ n3 \<noteq> []" "hd (n1 @ n2 @ n3) = ResetGadget" using n1(2) by auto
    ultimately show ?thesis using n3 a3 unfolding so_far_def by auto
  qed
  have R1: "request_log E functions callback g (rep (st, g1))" and R2: "request_log E functions callback g (rep (st, g2))" for st
    using so_far_report [OF s1 r1, of callback st] so_far_report [OF s2 r2, of callback st] by (simp_all add: rep_def)
  have R3: "request_log E functions callback g (rep (s3, g3))" if "s2 = SUCCESS" "s3 \<noteq> SUCCESS"
    using so_far_report [OF s3, of callback s3] n3(4,6) r2 that by (auto simp: rep_def)
  have R4: "request_log E functions callback g g3" if "s2 = SUCCESS" "s3 = SUCCESS"
    using s3 n3(4) r2 that by (auto intro!: request_logI [of _ _ _ _ "n1 @ n2 @ n3"] simp del: append_assoc)
  have "setCurrentUsbFunctions E functions callback timeout g =
      (if s1 \<noteq> SUCCESS then rep (s1, g1) else if functions = fn_bits E GF_NONE then rep (SUCCESS, g1)
       else if s2 \<noteq> SUCCESS then rep (s2, g2) else if s3 \<noteq> SUCCESS then rep (s3, g3) else g3)"
    by (simp add: setCurrentUsbFunctions_def t v u rep_def)
  with R1 R2 R3 R4 show ?thesis by metis
qed

lemma vid_pid_cases_distinct: "distinct (map (snd \<circ> snd) vid_pid_cases)"
  by code_simp

section \<open>Properties\<close>

text \<open>
  C14: A request makes its calls in one order: the gadget is torn down first, the ids are set
  before functions are added, and the gadget becomes visible to the host only after the
  functions have been added, debugging included where it was asked for.
\<close>
theorem gadget_bring_up_order:
  assumes "new = new_calls g (setCurrentUsbFunctions E functions callback timeout g)"
  shows "hd new = ResetGadget \<and> sorted (map stage new)
   \<and> (brings_up new \<longrightarrow> (\<exists>vid pid. SetVidPid vid pid \<in> set new) \<and> AddGenericAndroidFunctions functions \<in> set new
        \<and> (functions AND fn_bits E ADB \<noteq> 0 \<longrightarrow> AddAdb \<in> set new))"
  using request_calls [of E "functions" callback g timeout] by (auto simp: request_log_def so_far_def adds_def assms)

theorem gadget_bring_up_order_witness:
  "let new = new_calls sample_gadget (setCurrentUsbFunctions sample_gadget_env 5 True 100 sample_gadget)
   in brings_up new \<and> hd new = ResetGadget \<and> AddAdb \<in> set new"
proof -
  let ?new = "new_calls sample_gadget (setCurrentUsbFunctions sample_gadget_env 5 True 100 sample_gadget)"
  have "StartMonitor \<in> set ?new" "(5 :: 64 word) AND fn_bits sample_gadget_env ADB \<noteq> 0"
    by (simp_all add: new_calls_def setCurrentUsbFunctions_def tearDownGadget_def validateAndSetVidPid_def vid_pid_def
        vid_pid_cases_def fn_word_def setupFunctions_def pull_up_def gcall_def sample_gadget_env_def sample_gadget_def Let_def)
  then show ?thesis
    using gadget_bring_up_order [OF refl, of sample_gadget sample_gadget_env 5 True 100] by (auto simp: brings_up_def Let_def)
qed

text \<open>
  C39: A client that passes a callback is told exactly once how its request went, on every path
  through it, and one that passes none is not called.
\<close>
theorem gadget_reports_once:
  "\<exists>st. reports (new_calls g (setCurrentUsbFunctions E functions callback timeout g)) =
     (if callback then [(functions, st)] else [])"
  using request_calls [of E "functions" callback g timeout] by (auto simp: request_log_def)

text \<open>
  After a request the service reports the functions of that request as the current ones,
  and as applied only if it has pulled the gadget up itself; functions that need the monitor are
  reported as applied once the monitor says so.
\<close>
theorem gadget_set_then_get:
  assumes "g' = setCurrentUsbFunctions E functions callback timeout g"
  shows "\<exists>st. getCurrentUsbFunctions g' = Ret (gcall (GetCurrentUsbFunctionsCb functions st) g')
    \<and> (st = FUNCTIONS_APPLIED \<longrightarrow> WritePullup (mGadgetName g) \<in> set (new_calls g g'))
    \<and> getCurrentUsbFunctions (currentFunctionsAppliedCallback True g') =
      Ret (gcall (GetCurrentUsbFunctionsCb functions FUNCTIONS_APPLIED) (currentFunctionsAppliedCallback True g'))"
proof -
  have "mCurrentUsbFunctions g' = Some functions"
    "mCurrentUsbFunctionsApplied g' = Some False
      \<or> WritePullup (mGadgetName g) \<in> set (new_calls g g') \<and> mCurrentUsbFunctionsApplied g' = Some True"
    using request_calls [of E "functions" callback g timeout] by (auto simp: request_log_def so_far_def assms)
  then show ?thesis
    by (intro exI [of _ "if mCurrentUsbFunctionsApplied g' = Some True then FUNCTIONS_APPLIED else FUNCTIONS_NOT_APPLIED"],
        elim disjE) (simp_all add: getCurrentUsbFunctions_def currentFunctionsAppliedCallback_def defined_or_def)
qed

theorem gadget_set_then_get_witness:
  "\<exists>st. getCurrentUsbFunctions (setCurrentUsbFunctions sample_gadget_env 4 True 100 sample_gadget) =
     Ret (gcall (GetCurrentUsbFunctionsCb 4 st) (setCurrentUsbFunctions sample_gadget_env 4 True 100 sample_gadget))"
  using gadget_set_then_get [OF refl, of sample_gadget_env 4 True 100 sample_gadget] by blast

text \<open>
  Before the first request the two members are uninitialised, and asking for the current
  functions reads them.
\<close>
theorem gadget_get_before_set: "UsbGadget_new E = Ret g \<Longrightarrow> getCurrentUsbFunctions g = Undefined"
  by (auto simp: UsbGadget_new_def getCurrentUsbFunctions_def defined_or_def split: if_splits)

end
