(* ===== verification/Usb.thy ===== *)
theory Usb
  imports Outcome "HOL-Library.Sublist"
begin

text \<open>
  \<^verbatim>\<open>usb/usb/Usb.{h,cpp}\<close>: the service for the Type-C ports: their roles and states, the USB
  data lines, contaminant detection, and the thread that follows the kernel's uevents.

  The kernel's files and directories, the system properties and the functions of libbase are
  parameters (\<open>usb_env\<close>), and what they give may depend on everything done before, which is the
  log \<open>usb_log\<close>. An access outside a vector or to the wrong member of a union is not defined
  (\<open>Undefined\<close>) or ends the process (\<open>Abort\<close>).
\<close>

section \<open>Definitions\<close>

subsection \<open>Data\<close>

datatype usb_status = USB_SUCCESS | USB_ERROR | NOT_SUPPORTED | UNRECOGNIZED_ROLE

datatype PortPowerRole = PowerNone | SOURCE | SINK
datatype PortDataRole = DataNone | HOST | DEVICE
datatype PortMode = ModeNone | UFP | DFP | DRP | AUDIO_ACCESSORY | DEBUG_ACCESSORY

datatype PortRole = powerRole PortPowerRole | dataRole PortDataRole | mode PortMode

datatype role_tag = PowerTag | DataTag | ModeTag

fun getTag :: "PortRole \<Rightarrow> role_tag" where
  "getTag (powerRole _) = PowerTag"
| "getTag (dataRole _) = DataTag"
| "getTag (mode _) = ModeTag"

text \<open>\<open>get\<close> of a union ends the process where it holds another member.\<close>

fun get_powerRole :: "PortRole \<Rightarrow> PortPowerRole option" where
  "get_powerRole (powerRole r) = Some r"
| "get_powerRole _ = None"

fun get_dataRole :: "PortRole \<Rightarrow> PortDataRole option" where
  "get_dataRole (dataRole r) = Some r"
| "get_dataRole _ = None"

fun get_mode :: "PortRole \<Rightarrow> PortMode option" where
  "get_mode (mode r) = Some r"
| "get_mode _ = None"

datatype ContaminantDetectionStatus = CD_NOT_SUPPORTED | DISABLED | NOT_DETECTED | DETECTED
datatype ContaminantProtectionStatus = CP_NONE | CP_FORCE_DISABLE
datatype UsbDataStatus = ENABLED | DISABLED_FORCE
datatype PowerBrickStatus = BrickUnknown | BrickConnected | BrickNotConnected

record PortStatus =
  portName :: string
  currentPowerRole :: PortPowerRole
  currentDataRole :: PortDataRole
  currentMode :: PortMode
  canChangeMode :: bool
  canChangeDataRole :: bool
  canChangePowerRole :: bool
  supportedModes :: "PortMode list"
  usbDataStatus :: "UsbDataStatus list"
  supportedContaminantProtectionModes :: "ContaminantProtectionStatus list"
  contaminantProtectionStatus :: ContaminantProtectionStatus
  contaminantDetectionStatus :: ContaminantDetectionStatus
  supportsEnableContaminantPresenceDetection :: bool
  supportsEnableContaminantPresenceProtection :: bool
  powerTransferLimited :: bool
  powerBrickStatus :: PowerBrickStatus

datatype write_result = OpenFailed | WriteFailed | Written

datatype usb_event =
    FileWrite string string write_result
  | NotifyEnableUsbData string bool usb_status int
  | NotifyEnableUsbDataWhileDocked string usb_status int
  | NotifyResetUsbPort string usb_status int
  | NotifyLimitPowerTransfer string bool usb_status int
  | NotifyRoleSwitch string PortRole usb_status int
  | NotifyPortStatusChange "PortStatus list" usb_status
  | NotifyQueryPortStatus string usb_status int
  | NotifyContaminantEnabled string bool usb_status int

type_synonym usb_log = "usb_event list"

record usb_env =
  GetProperty :: "usb_log \<Rightarrow> string \<Rightarrow> string \<Rightarrow> string"
  read_file :: "usb_log \<Rightarrow> string \<Rightarrow> string option"
  write_file :: "usb_log \<Rightarrow> string \<Rightarrow> string \<Rightarrow> write_result"
  open_dir :: "usb_log \<Rightarrow> string \<Rightarrow> (string \<times> bool) list option"
  Trim :: "string \<Rightarrow> string"
  port_default :: PortStatus

record Usb =
  mCallback :: bool
  mRoleSwitchLock :: bool
  mPartnerUp :: bool
  mUsbDataEnabled :: bool
  usb_effects :: usb_log

definition PULLUP_PATH :: string where
  "PULLUP_PATH = ''/config/usb_gadget/g1/UDC''"

definition USB_DATA_PATH :: string where
  "USB_DATA_PATH = ''/sys/devices/platform/soc/a600000.ssusb/usb_data_enabled''"

definition USB_POWER_LIMIT_PATH :: string where
  "USB_POWER_LIMIT_PATH =
     ''/sys/devices/platform/soc/c440000.qcom,spmi/spmi-0/spmi0-02/c440000.qcom,spmi:qcom,pm7250b@2:qcom,usb-pdphy@1700/usbpd0/''"

definition kDetectedPath :: string where
  "kDetectedPath = ''/sys/class/power_supply/usb/moisture_detected''"

definition kEnabledPath :: string where
  "kEnabledPath = ''/sys/class/power_supply/usb/moisture_detection_enabled''"

definition kTypecPath :: string where
  "kTypecPath = ''/sys/class/typec''"

definition Usb_new :: Usb where
  "Usb_new =
     \<lparr>mCallback = False, mRoleSwitchLock = False, mPartnerUp = False, mUsbDataEnabled = True, usb_effects = []\<rparr>"

definition uemit :: "usb_event \<Rightarrow> Usb \<Rightarrow> Usb" where
  "uemit e u = u\<lparr>usb_effects := usb_effects u @ [e]\<rparr>"

text \<open>A file written with \<open>WriteStringToFile\<close>, or with \<open>fopen\<close> and \<open>fputs\<close>.\<close>

definition uwrite :: "usb_env \<Rightarrow> string \<Rightarrow> string \<Rightarrow> Usb \<Rightarrow> write_result \<times> Usb" where
  "uwrite E value path u =
     (let r = write_file E (usb_effects u) path value in (r, uemit (FileWrite path value r) u))"

definition notify :: "usb_event \<Rightarrow> Usb \<Rightarrow> Usb" where
  "notify e u = (if mCallback u then uemit e u else u)"

definition status_of :: "bool \<Rightarrow> usb_status" where
  "status_of ok = (if ok then USB_SUCCESS else USB_ERROR)"

subsection \<open>Roles and their names\<close>

definition appendRoleNodeHelper :: "string \<Rightarrow> role_tag \<Rightarrow> string" where
  "appendRoleNodeHelper name tag =
     (let node = ''/sys/class/typec/'' @ name
      in case tag of DataTag \<Rightarrow> node @ ''/data_role'' | PowerTag \<Rightarrow> node @ ''/power_role'' | ModeTag \<Rightarrow> node @ ''/port_type'')"

fun convertRoletoString :: "PortRole \<Rightarrow> string" where
  "convertRoletoString (powerRole SOURCE) = ''source''"
| "convertRoletoString (powerRole SINK) = ''sink''"
| "convertRoletoString (dataRole HOST) = ''host''"
| "convertRoletoString (dataRole DEVICE) = ''device''"
| "convertRoletoString (mode UFP) = ''sink''"
| "convertRoletoString (mode DFP) = ''source''"
| "convertRoletoString _ = ''none''"

text \<open>\<open>find\<close> of one character.\<close>

fun find_char :: "char \<Rightarrow> string \<Rightarrow> nat option" where
  "find_char c [] = None"
| "find_char c (x # xs) = (if x = c then Some 0 else map_option Suc (find_char c xs))"

text \<open>
  The length of the substring is an unsigned number; where the closing bracket comes first it
  wraps round to one that is larger than any string.
\<close>

definition extractRole :: "string \<Rightarrow> string" where
  "extractRole roleName =
     (case (find_char (CHR ''['') roleName, find_char (CHR '']'') roleName) of
        (Some opening, Some closing) \<Rightarrow>
          let rest = drop (opening + 1) roleName
          in if opening < closing then take (closing - opening - 1) rest else rest
      | _ \<Rightarrow> roleName)"

subsection \<open>Switching roles\<close>

definition switchToDrp :: "usb_env \<Rightarrow> string \<Rightarrow> Usb \<Rightarrow> Usb" where
  "switchToDrp E name u = snd (uwrite E ''dual'' (appendRoleNodeHelper name ModeTag) u)"

text \<open>
  The loop that waits for the partner. The \<open>n\<close>th wait on the condition variable ends with
  \<open>wake n\<close>: whether it timed out, and whether the partner is up by then.
\<close>

partial_function (option) wait_again :: "(nat \<Rightarrow> bool \<times> bool) \<Rightarrow> nat \<Rightarrow> (bool \<times> bool) option" where
  "wait_again wake n =
     (let (timedout, up) = wake n
      in if timedout then Some (False, up) else if \<not> up then wait_again wake (Suc n) else Some (True, up))"

definition switchMode :: "usb_env \<Rightarrow> (nat \<Rightarrow> bool \<times> bool) \<Rightarrow> string \<Rightarrow> PortRole \<Rightarrow> Usb \<Rightarrow> (bool \<times> Usb) option" where
  "switchMode E wake name role u =
     (let (r, u1) = uwrite E (convertRoletoString role) (appendRoleNodeHelper name (getTag role)) u
      in case r of
           OpenFailed \<Rightarrow> Some (False, switchToDrp E name u1)
         | WriteFailed \<Rightarrow> Some (False, switchToDrp E name (u1\<lparr>mPartnerUp := False\<rparr>))
         | Written \<Rightarrow>
             map_option (\<lambda>(roleSwitch, up).
               let u2 = u1\<lparr>mPartnerUp := up\<rparr> in (roleSwitch, if roleSwitch then u2 else switchToDrp E name u2))
             (wait_again wake 0))"

definition write_role :: "usb_env \<Rightarrow> string \<Rightarrow> PortRole \<Rightarrow> Usb \<Rightarrow> bool \<times> Usb" where
  "write_role E filename role u =
     (let (r, u1) = uwrite E (convertRoletoString role) filename u
      in if r = Written then
           case read_file E (usb_effects u1) filename of
             Some written \<Rightarrow> (extractRole (Trim E written) = convertRoletoString role, u1)
           | None \<Rightarrow> (False, u1)
         else (False, u1))"

definition switchRole :: "usb_env \<Rightarrow> (nat \<Rightarrow> bool \<times> bool) \<Rightarrow> string \<Rightarrow> PortRole \<Rightarrow> int \<Rightarrow> Usb \<Rightarrow> Usb option" where
  "switchRole E wake name role txn u =
     (let filename = appendRoleNodeHelper name (getTag role);
          res = (if getTag role = ModeTag then switchMode E wake name role (u\<lparr>mRoleSwitchLock := True\<rparr>)
                 else Some (write_role E filename role (u\<lparr>mRoleSwitchLock := True\<rparr>)))
      in map_option (\<lambda>(ok, u1). (notify (NotifyRoleSwitch name role (status_of ok) txn) u1)\<lparr>mRoleSwitchLock := False\<rparr>) res)"

subsection \<open>The state of the ports\<close>

definition getAccessoryConnected :: "usb_env \<Rightarrow> Usb \<Rightarrow> string \<Rightarrow> usb_status \<times> string" where
  "getAccessoryConnected E u name =
     (case read_file E (usb_effects u) (''/sys/class/typec/'' @ name @ ''-partner/accessory_mode'') of
        None \<Rightarrow> (USB_ERROR, [])
      | Some accessory \<Rightarrow> (USB_SUCCESS, Trim E accessory))"

definition read_role :: "usb_env \<Rightarrow> Usb \<Rightarrow> string \<Rightarrow> PortRole \<Rightarrow> usb_status \<times> PortRole" where
  "read_role E u filename role =
     (case read_file E (usb_effects u) filename of
        None \<Rightarrow> (USB_ERROR, role)
      | Some text \<Rightarrow>
          let roleName = extractRole (Trim E text)
          in if roleName = ''source'' then (USB_SUCCESS, powerRole SOURCE)
             else if roleName = ''sink'' then (USB_SUCCESS, powerRole SINK)
             else if roleName = ''host'' then (USB_SUCCESS, if getTag role = DataTag then dataRole HOST else mode DFP)
             else if roleName = ''device'' then (USB_SUCCESS, if getTag role = DataTag then dataRole DEVICE else mode UFP)
             else if roleName \<noteq> ''none'' then (UNRECOGNIZED_ROLE, role)
             else (USB_SUCCESS, role))"

definition getCurrentRoleHelper :: "usb_env \<Rightarrow> Usb \<Rightarrow> string \<Rightarrow> bool \<Rightarrow> role_tag \<Rightarrow> usb_status \<times> PortRole" where
  "getCurrentRoleHelper E u name connected tag =
     (let (filename, role) =
            (case tag of
               PowerTag \<Rightarrow> (''/sys/class/typec/'' @ name @ ''/power_role'', powerRole PowerNone)
             | DataTag \<Rightarrow> (''/sys/class/typec/'' @ name @ ''/data_role'', dataRole DataNone)
             | ModeTag \<Rightarrow> (''/sys/class/typec/'' @ name @ ''/data_role'', mode ModeNone))
      in if \<not> connected then (USB_SUCCESS, role)
         else if tag = ModeTag then
           let (st, accessory) = getAccessoryConnected E u name
           in if st \<noteq> USB_SUCCESS then (USB_ERROR, role)
              else if accessory = ''analog_audio'' then (USB_SUCCESS, mode AUDIO_ACCESSORY)
              else if accessory = ''debug'' then (USB_SUCCESS, mode DEBUG_ACCESSORY)
              else read_role E u filename role
         else read_role E u filename role)"

text \<open>\<open>find\<close> of a string, and the first token of \<open>strtok\<close> at a dash.\<close>

fun contains_str :: "string \<Rightarrow> string \<Rightarrow> bool" where
  "contains_str p [] = (p = [])"
| "contains_str p (x # xs) = (prefix p (x # xs) \<or> contains_str p xs)"

definition dash_token :: "string \<Rightarrow> string" where
  "dash_token s = takeWhile (\<lambda>c. c \<noteq> CHR ''-'') (dropWhile (\<lambda>c. c = CHR ''-'') s)"

definition is_partner :: "string \<Rightarrow> bool" where
  "is_partner name = contains_str ''-partner'' name"

definition add_name :: "string \<times> bool \<Rightarrow> (string, bool) umap \<Rightarrow> (string, bool) umap" where
  "add_name = (\<lambda>(name, link) names.
     if \<not> link then names
     else if \<not> is_partner name then (if umap_find names name = None then umap_set name False names else names)
     else umap_set (dash_token name) True names)"

definition getTypeCPortNamesHelper :: "usb_env \<Rightarrow> Usb \<Rightarrow> (string, bool) umap option" where
  "getTypeCPortNamesHelper E u =
     (case open_dir E (usb_effects u) kTypecPath of
        None \<Rightarrow> None
      | Some entries \<Rightarrow> Some (fold add_name entries []))"

definition canSwitchRoleHelper :: "usb_env \<Rightarrow> Usb \<Rightarrow> string \<Rightarrow> bool" where
  "canSwitchRoleHelper E u name =
     (case read_file E (usb_effects u) (''/sys/class/typec/'' @ name @ ''-partner/supports_usb_power_delivery'') of
        None \<Rightarrow> False
      | Some supportsPD \<Rightarrow> Trim E supportsPD = ''yes'')"

text \<open>One round of the loop: whether to go on, and the status of the port so far.\<close>

definition port_status :: "usb_env \<Rightarrow> Usb \<Rightarrow> string \<times> bool \<Rightarrow> (bool \<times> PortStatus) outcome" where
  "port_status E u = (\<lambda>(name, connected).
     let p0 = (port_default E)\<lparr>portName := name\<rparr>;
         (st1, r1) = getCurrentRoleHelper E u name connected PowerTag;
         (st2, r2) = getCurrentRoleHelper E u name connected DataTag;
         (st3, r3) = getCurrentRoleHelper E u name connected ModeTag
     in if st1 \<noteq> USB_SUCCESS then Ret (False, p0)
        else obind (opt_value (get_powerRole r1)) (\<lambda>pr.
          let p1 = p0\<lparr>currentPowerRole := pr\<rparr>
          in if st2 \<noteq> USB_SUCCESS then Ret (False, p1)
             else obind (opt_value (get_dataRole r2)) (\<lambda>dr.
               let p2 = p1\<lparr>currentDataRole := dr\<rparr>
               in if st3 \<noteq> USB_SUCCESS then Ret (False, p2)
                  else obind (opt_value (get_mode r3)) (\<lambda>md.
                    Ret (True, p2\<lparr>currentMode := md, canChangeMode := True,
                      canChangeDataRole := connected \<and> canSwitchRoleHelper E u name,
                      canChangePowerRole := connected \<and> canSwitchRoleHelper E u name,
                      supportedModes := supportedModes p2 @ [DRP],
                      usbDataStatus := usbDataStatus p2 @ [if mUsbDataEnabled u then ENABLED else DISABLED_FORCE],
                      powerBrickStatus := BrickUnknown\<rparr>)))))"

fun port_loop :: "usb_env \<Rightarrow> Usb \<Rightarrow> (string, bool) umap \<Rightarrow> (usb_status \<times> PortStatus list) outcome" where
  "port_loop E u [] = Ret (USB_SUCCESS, [])"
| "port_loop E u (port # ports) =
     obind (port_status E u port) (\<lambda>(ok, p).
       if ok then obind (port_loop E u ports) (\<lambda>(st, ps). Ret (st, p # ps))
       else Ret (USB_ERROR, p # replicate (length ports) (port_default E)))"

definition getPortStatusHelper :: "usb_env \<Rightarrow> Usb \<Rightarrow> (usb_status \<times> PortStatus list) outcome" where
  "getPortStatusHelper E u =
     (case getTypeCPortNamesHelper E u of None \<Rightarrow> Ret (USB_ERROR, []) | Some names \<Rightarrow> port_loop E u names)"

text \<open>\<open>(*currentPortStatus)[0]\<close>.\<close>

fun on_first :: "(PortStatus \<Rightarrow> PortStatus) \<Rightarrow> PortStatus list \<Rightarrow> PortStatus list outcome" where
  "on_first f [] = Undefined"
| "on_first f (p # ps) = Ret (f p # ps)"

definition queryMoistureDetectionStatus :: "usb_env \<Rightarrow> Usb \<Rightarrow> PortStatus list \<Rightarrow> (usb_status \<times> PortStatus list) outcome" where
  "queryMoistureDetectionStatus E u ports =
     obind (on_first (\<lambda>p. p\<lparr>supportedContaminantProtectionModes := supportedContaminantProtectionModes p @ [CP_FORCE_DISABLE],
         contaminantProtectionStatus := CP_NONE, contaminantDetectionStatus := DISABLED,
         supportsEnableContaminantPresenceDetection := True, supportsEnableContaminantPresenceProtection := False\<rparr>) ports) (\<lambda>ports.
     case read_file E (usb_effects u) kEnabledPath of
       None \<Rightarrow> Ret (USB_ERROR, ports)
     | Some enabled \<Rightarrow>
         if Trim E enabled = ''1'' then
           case read_file E (usb_effects u) kDetectedPath of
             None \<Rightarrow> Ret (USB_ERROR, ports)
           | Some detected \<Rightarrow>
               obind (on_first (\<lambda>p.
                 if Trim E detected = ''1''
                 then p\<lparr>contaminantDetectionStatus := DETECTED, contaminantProtectionStatus := CP_FORCE_DISABLE\<rparr>
                 else p\<lparr>contaminantDetectionStatus := NOT_DETECTED\<rparr>) ports) (\<lambda>ports. Ret (USB_SUCCESS, ports))
         else Ret (USB_SUCCESS, ports))"

definition queryPowerTransferStatus :: "usb_env \<Rightarrow> Usb \<Rightarrow> PortStatus list \<Rightarrow> (usb_status \<times> PortStatus list) outcome" where
  "queryPowerTransferStatus E u ports =
     (case read_file E (usb_effects u) (USB_POWER_LIMIT_PATH @ ''usb_limit_sink_enable'') of
        None \<Rightarrow> Ret (USB_ERROR, ports)
      | Some enabled \<Rightarrow>
          obind (on_first (\<lambda>p. p\<lparr>powerTransferLimited := (Trim E enabled = ''1'')\<rparr>) ports) (\<lambda>ports. Ret (USB_SUCCESS, ports)))"

definition queryVersionHelper :: "usb_env \<Rightarrow> Usb \<Rightarrow> (PortStatus list \<times> Usb) outcome" where
  "queryVersionHelper E u =
     (let disableMoisture = GetProperty E (usb_effects u) ''vendor.usb.contaminantdisable'' ''true''
      in obind (getPortStatusHelper E u) (\<lambda>(st, ports).
         obind (if disableMoisture \<noteq> ''true'' then queryMoistureDetectionStatus E u ports else Ret (USB_SUCCESS, ports)) (\<lambda>(_, ports).
         obind (queryPowerTransferStatus E u ports) (\<lambda>(_, ports).
           Ret (ports, notify (NotifyPortStatusChange ports st) u)))))"

subsection \<open>The methods of the service\<close>

definition then_query :: "usb_env \<Rightarrow> Usb \<Rightarrow> Usb outcome" where
  "then_query E u = obind (queryVersionHelper E u) (\<lambda>(_, u). Ret u)"

text \<open>The first part of \<open>enableUsbData\<close>: pull the gadget up or down where it is not yet.\<close>

definition set_pullup :: "usb_env \<Rightarrow> bool \<Rightarrow> string \<Rightarrow> Usb \<Rightarrow> bool \<times> Usb" where
  "set_pullup E enable gadgetName u =
     (case read_file E (usb_effects u) PULLUP_PATH of
        None \<Rightarrow> (True, u)
      | Some pullup \<Rightarrow>
          if enable then
            if Trim E pullup \<noteq> gadgetName
            then let (r, u1) = uwrite E gadgetName PULLUP_PATH u in (r = Written, u1) else (True, u)
          else
            if Trim E pullup = gadgetName
            then let (r, u1) = uwrite E ''none'' PULLUP_PATH u in (r = Written, u1) else (True, u))"

definition enableUsbData :: "usb_env \<Rightarrow> string \<Rightarrow> bool \<Rightarrow> int \<Rightarrow> Usb \<Rightarrow> Usb outcome" where
  "enableUsbData E name enable txn u =
     (let disableDS = (GetProperty E (usb_effects u) ''vendor.usb.signalingdisable'' [] = ''true'');
          gadgetName = GetProperty E (usb_effects u) ''sys.usb.controller'' [];
          (pulled, u1) = set_pullup E enable gadgetName u;
          (r, u2) = uwrite E (if enable then ''1'' else ''0'') USB_DATA_PATH u1;
          result = (gadgetName \<noteq> [] \<and> pulled \<and> (r = Written \<or> disableDS));
          u3 = (if result then u2\<lparr>mUsbDataEnabled := enable\<rparr> else u2)
      in then_query E (notify (NotifyEnableUsbData name enable (status_of result) txn) u3))"

definition enableUsbDataWhileDocked :: "usb_env \<Rightarrow> string \<Rightarrow> int \<Rightarrow> Usb \<Rightarrow> Usb outcome" where
  "enableUsbDataWhileDocked E name txn u =
     then_query E (notify (NotifyEnableUsbDataWhileDocked name NOT_SUPPORTED txn) u)"

definition resetUsbPort :: "usb_env \<Rightarrow> string \<Rightarrow> int \<Rightarrow> Usb \<Rightarrow> Usb" where
  "resetUsbPort E name txn u =
     (let (r, u1) = uwrite E ''none'' PULLUP_PATH u
      in notify (NotifyResetUsbPort name (status_of (r = Written)) txn) u1)"

definition limitPowerTransfer :: "usb_env \<Rightarrow> string \<Rightarrow> bool \<Rightarrow> int \<Rightarrow> Usb \<Rightarrow> Usb outcome" where
  "limitPowerTransfer E name limit txn u =
     (let flag = (if limit then ''1'' else ''0'');
          (ok1, u1) = (if limit then uwrite E ''0'' (USB_POWER_LIMIT_PATH @ ''usb_limit_sink_current'') u else (Written, u));
          (ok2, u2) = uwrite E flag (USB_POWER_LIMIT_PATH @ ''usb_limit_sink_enable'') u1;
          (ok3, u3) = uwrite E flag (USB_POWER_LIMIT_PATH @ ''usb_limit_source_enable'') u2;
          ok = (ok1 = Written \<and> ok2 = Written \<and> ok3 = Written)
      in then_query E (if txn \<ge> 0 then notify (NotifyLimitPowerTransfer name limit (status_of ok) txn) u3 else u3))"

definition queryPortStatus :: "usb_env \<Rightarrow> int \<Rightarrow> Usb \<Rightarrow> Usb outcome" where
  "queryPortStatus E txn u =
     obind (then_query E u) (\<lambda>u1. Ret (notify (NotifyQueryPortStatus ''all'' USB_SUCCESS txn) u1))"

definition enableContaminantPresenceDetection :: "usb_env \<Rightarrow> string \<Rightarrow> bool \<Rightarrow> int \<Rightarrow> Usb \<Rightarrow> Usb outcome" where
  "enableContaminantPresenceDetection E name enable txn u =
     (let disable = GetProperty E (usb_effects u) ''vendor.usb.contaminantdisable'' ''true'';
          console = GetProperty E (usb_effects u) ''init.svc.console'' [];
          (r, u1) = (if console \<noteq> ''running'' \<and> disable \<noteq> ''true''
                     then uwrite E (if enable then ''1'' else ''0'') kEnabledPath u else (Written, u))
      in then_query E (notify (NotifyContaminantEnabled name enable (status_of (r = Written)) txn) u1))"

subsection \<open>Uevents\<close>

definition NUL :: char where
  "NUL = char_of (0::nat)"

definition UEVENT_MSG_LEN :: nat where
  "UEVENT_MSG_LEN = 2048"

text \<open>The regular expression \<open>(add)(.*)(-partner)\<close>; the dot matches no line end.\<close>

definition partner_added :: "string \<Rightarrow> bool" where
  "partner_added cp \<longleftrightarrow>
     prefix ''add'' cp \<and> suffix ''-partner'' cp \<and> length cp \<ge> 11
     \<and> list_all (\<lambda>c. c \<noteq> CHR 0x0A \<and> c \<noteq> CHR 0x0D) (drop 3 (take (length cp - 8) cp))"

definition ports_changed :: "string \<Rightarrow> bool" where
  "ports_changed cp \<longleftrightarrow> prefix ''DEVTYPE=typec_'' cp \<or> prefix ''POWER_SUPPLY_MOISTURE_DETECTED'' cp"

text \<open>Ports without a partner go back to dual role, unless a role switch is in progress.\<close>

definition drp_if_alone :: "usb_env \<Rightarrow> string \<Rightarrow> Usb \<Rightarrow> Usb" where
  "drp_if_alone E name u =
     (if open_dir E (usb_effects u) (''/sys/class/typec/'' @ name @ ''-partner'') = None then switchToDrp E name u else u)"

definition on_ports_changed :: "usb_env \<Rightarrow> Usb \<Rightarrow> Usb outcome" where
  "on_ports_changed E u =
     obind (queryVersionHelper E u) (\<lambda>(ports, u1).
       Ret (if mRoleSwitchLock u1 then u1 else fold (drp_if_alone E \<circ> portName) ports u1))"

text \<open>The loop over the fields of a message; \<open>Undefined\<close> is a read outside the buffer.\<close>

function uevent_loop :: "usb_env \<Rightarrow> string \<Rightarrow> Usb \<Rightarrow> Usb outcome" where
  "uevent_loop E buf u =
     (if NUL \<notin> set buf then Undefined
      else
        let cp = takeWhile (\<lambda>c. c \<noteq> NUL) buf;
            rest = drop (Suc (length cp)) buf
        in if cp = [] then Ret u
           else if partner_added cp then uevent_loop E rest (u\<lparr>mPartnerUp := True\<rparr>)
           else if ports_changed cp then on_ports_changed E u
           else uevent_loop E rest u)"
  by pat_completeness auto

termination
  by (relation "measure (\<lambda>(E, buf, u). length buf)") (auto dest: length_pos_if_in_set)

declare uevent_loop.simps [simp del]

text \<open>\<open>msg\<close> is what was received, of a length that may be the whole buffer.\<close>

definition uevent_event :: "usb_env \<Rightarrow> string \<Rightarrow> Usb \<Rightarrow> Usb outcome" where
  "uevent_event E msg u =
     (if msg = [] then Ret u
      else if length msg \<ge> UEVENT_MSG_LEN then Ret u
      else uevent_loop E (msg @ [NUL, NUL]) u)"

subsection \<open>The callback and its thread\<close>

text \<open>
  \<open>setCallback\<close>, with what \<open>pthread_create\<close> gives; the second result is whether a thread is to
  be stopped.
\<close>

definition setCallback :: "bool \<Rightarrow> bool \<Rightarrow> Usb \<Rightarrow> bool \<times> Usb" where
  "setCallback create_ok callback u =
     (if callback = mCallback u then (False, u)
      else if \<not> callback then (True, u\<lparr>mCallback := False\<rparr>)
      else (False, u\<lparr>mCallback := create_ok\<rparr>))"

text \<open>
  The thread of \<open>work\<close> against a call of \<open>setCallback\<close> that removes the callback. The thread looks
  at \<open>destroyThread\<close>, goes to wait, and for a uevent about the ports takes \<open>mLock\<close>; the caller
  takes \<open>mLock\<close>, sends the signal, whose handler sets the flag and interrupts a wait, and joins
  the thread before it gives the lock back.
\<close>

datatype poll_pc = AtCheck | BeforeWait | InWait | WantsLock | HasLock | Exited
datatype caller_pc = NotCalled | Joining | Returned

record poll_sys =
  poll_thread :: poll_pc
  caller :: caller_pc
  destroyThread :: bool

inductive poll_step :: "poll_sys \<Rightarrow> poll_sys \<Rightarrow> bool" where
  leave: "poll_thread s = AtCheck \<Longrightarrow> destroyThread s \<Longrightarrow> poll_step s (s\<lparr>poll_thread := Exited\<rparr>)"
| stay: "poll_thread s = AtCheck \<Longrightarrow> \<not> destroyThread s \<Longrightarrow> poll_step s (s\<lparr>poll_thread := BeforeWait\<rparr>)"
| enter: "poll_thread s = BeforeWait \<Longrightarrow> poll_step s (s\<lparr>poll_thread := InWait\<rparr>)"
| other_event: "poll_thread s = InWait \<Longrightarrow> poll_step s (s\<lparr>poll_thread := AtCheck\<rparr>)"
| port_event: "poll_thread s = InWait \<Longrightarrow> poll_step s (s\<lparr>poll_thread := WantsLock\<rparr>)"
| lock: "poll_thread s = WantsLock \<Longrightarrow> caller s \<noteq> Joining \<Longrightarrow> poll_step s (s\<lparr>poll_thread := HasLock\<rparr>)"
| unlock: "poll_thread s = HasLock \<Longrightarrow> poll_step s (s\<lparr>poll_thread := AtCheck\<rparr>)"
| signal: "caller s = NotCalled \<Longrightarrow> poll_thread s \<noteq> HasLock \<Longrightarrow>
    poll_step s (s\<lparr>caller := Joining, destroyThread := True,
      poll_thread := (if poll_thread s = InWait then AtCheck else poll_thread s)\<rparr>)"
| join: "caller s = Joining \<Longrightarrow> poll_thread s = Exited \<Longrightarrow> poll_step s (s\<lparr>caller := Returned\<rparr>)"

definition poll_start :: poll_sys where
  "poll_start = \<lparr>poll_thread = AtCheck, caller = NotCalled, destroyThread = False\<rparr>"

subsection \<open>What the service promises\<close>

text \<open>A directory entry that shows a partner at a port.\<close>

definition has_partner :: "(string \<times> bool) list \<Rightarrow> string \<Rightarrow> bool" where
  "has_partner entries p \<longleftrightarrow> (\<exists>n. (n, True) \<in> set entries \<and> is_partner n \<and> dash_token n = p)"

definition is_port :: "(string \<times> bool) list \<Rightarrow> string \<Rightarrow> bool" where
  "is_port entries p \<longleftrightarrow> (p, True) \<in> set entries \<and> \<not> is_partner p"

text \<open>The words of the kernel: power roles in the one file, data roles in the other.\<close>

definition file_word :: "usb_env \<Rightarrow> Usb \<Rightarrow> string \<Rightarrow> string \<Rightarrow> string option" where
  "file_word E u name file =
     map_option (extractRole \<circ> Trim E) (read_file E (usb_effects u) (''/sys/class/typec/'' @ name @ file))"

definition kernel_roles :: "usb_env \<Rightarrow> Usb \<Rightarrow> bool" where
  "kernel_roles E u \<longleftrightarrow> (\<forall>name.
     file_word E u name ''/power_role'' \<notin> {Some ''host'', Some ''device''}
     \<and> file_word E u name ''/data_role'' \<notin> {Some ''source'', Some ''sink''})"

text \<open>A message as its fields, and the loop over them.\<close>

fun msg_fields :: "string \<Rightarrow> string list" where
  "msg_fields [] = [[]]"
| "msg_fields (c # cs) = (if c = NUL then [] # msg_fields cs else (c # hd (msg_fields cs)) # tl (msg_fields cs))"

fun handle_fields :: "usb_env \<Rightarrow> string list \<Rightarrow> Usb \<Rightarrow> Usb outcome" where
  "handle_fields E [] u = Ret u"
| "handle_fields E (f # fs) u =
     (if partner_added f then handle_fields E fs (u\<lparr>mPartnerUp := True\<rparr>)
      else if ports_changed f then on_ports_changed E u
      else handle_fields E fs u)"

text \<open>No step is left in these two states: the call has returned, or it never will.\<close>

definition poll_done :: "poll_sys \<Rightarrow> bool" where
  "poll_done s \<longleftrightarrow> caller s = Returned \<and> poll_thread s = Exited"

definition poll_deadlocked :: "poll_sys \<Rightarrow> bool" where
  "poll_deadlocked s \<longleftrightarrow> caller s = Joining \<and> poll_thread s = WantsLock"

definition poll_inv :: "poll_sys \<Rightarrow> bool" where
  "poll_inv s \<longleftrightarrow>
     (destroyThread s \<longleftrightarrow> caller s \<noteq> NotCalled) \<and> (poll_thread s = Exited \<longrightarrow> destroyThread s)
     \<and> (caller s = Joining \<longrightarrow> poll_thread s \<noteq> HasLock) \<and> (caller s = Returned \<longrightarrow> poll_thread s = Exited)"

text \<open>
  When a role switch has happened: the file took the role, and for a mode the partner came up
  before the first wait that timed out; for the other roles the file then shows it.
\<close>

definition role_taken :: "usb_env \<Rightarrow> (nat \<Rightarrow> bool \<times> bool) \<Rightarrow> string \<Rightarrow> PortRole \<Rightarrow> Usb \<Rightarrow> bool" where
  "role_taken E wake name role u \<longleftrightarrow>
     (let path = appendRoleNodeHelper name (getTag role);
          (r, u1) = uwrite E (convertRoletoString role) path u
      in r = Written
         \<and> (if getTag role = ModeTag then \<not> fst (wake (LEAST n. fst (wake n) \<or> snd (wake n)))
            else map_option (extractRole \<circ> Trim E) (read_file E (usb_effects u1) path) = Some (convertRoletoString role)))"

definition sample_port :: PortStatus where
  "sample_port =
     \<lparr>portName = [], currentPowerRole = PowerNone, currentDataRole = DataNone, currentMode = ModeNone, canChangeMode = False,
      canChangeDataRole = False, canChangePowerRole = False, supportedModes = [], usbDataStatus = [],
      supportedContaminantProtectionModes = [], contaminantProtectionStatus = CP_NONE,
      contaminantDetectionStatus = CD_NOT_SUPPORTED, supportsEnableContaminantPresenceDetection = False,
      supportsEnableContaminantPresenceProtection = False, powerTransferLimited = False, powerBrickStatus = BrickUnknown\<rparr>"

definition sample_usb_env :: usb_env where
  "sample_usb_env =
     \<lparr>GetProperty = (\<lambda>_ _ default. default),
      read_file = (\<lambda>_ path. if suffix ''power_role'' path then Some ''[source] sink''
        else if suffix ''data_role'' path then Some ''[host] device'' else Some ''none''),
      write_file = (\<lambda>_ _ _. Written), open_dir = (\<lambda>_ _. Some [(''port0-partner'', True), (''port0'', True), (''.'', False)]),
      Trim = id, port_default = sample_port\<rparr>"

section \<open>Ports and their names\<close>

lemma map_of_add_name:
  "map_of (add_name (n, link) names) p =
     (if link \<and> is_partner n \<and> dash_token n = p then Some True
      else if link \<and> \<not> is_partner n \<and> n = p \<and> map_of names p = None then Some False
      else map_of names p)"
  by (auto simp: add_name_def umap_simps)

lemma add_name_wf: "umap_wf names \<Longrightarrow> umap_wf (add_name e names)"
  by (cases e) (auto simp: add_name_def umap_simps)

lemma port_names_map:
  "umap_wf (fold add_name entries [])
   \<and> map_of (fold add_name entries []) p =
       (if has_partner entries p then Some True else if is_port entries p then Some False else None)"
proof (induction entries rule: rev_induct)
  case Nil
  then show ?case by (simp add: has_partner_def is_port_def)
next
  case (snoc e es)
  obtain n link where e: "e = (n, link)" by (cases e)
  have "has_partner (es @ [e]) p \<longleftrightarrow> has_partner es p \<or> link \<and> is_partner n \<and> dash_token n = p"
    "is_port (es @ [e]) p \<longleftrightarrow> is_port es p \<or> link \<and> \<not> is_partner n \<and> n = p"
    by (auto simp: has_partner_def is_port_def e)
  with snoc show ?case by (auto simp: e map_of_add_name add_name_wf)
qed

section \<open>Roles\<close>

lemma find_char_app: "c \<notin> set xs \<Longrightarrow> find_char c (xs @ c # ys) = Some (length xs)"
  by (induction xs) auto

lemma extractRole_brackets:
  assumes "CHR ''['' \<notin> set pre" "CHR '']'' \<notin> set (pre @ name)"
  shows "extractRole (pre @ ''['' @ name @ '']'' @ post) = name"
proof -
  have "find_char (CHR ''['') (pre @ ''['' @ name @ '']'' @ post) = Some (length pre)"
    using find_char_app [OF assms(1), of "name @ '']'' @ post"] by simp
  moreover have "find_char (CHR '']'') ((pre @ ''['' @ name) @ CHR '']'' # post) = Some (length (pre @ ''['' @ name))"
    using assms(2) by (intro find_char_app) auto
  ultimately show ?thesis by (simp add: extractRole_def)
qed

lemma read_role_tag:
  assumes "map_option (extractRole \<circ> Trim E) (read_file E (usb_effects u) filename) \<notin> bad" and "getTag role = tag"
    and "bad = (if tag = PowerTag then {Some ''host'', Some ''device''} else {Some ''source'', Some ''sink''})"
  shows "getTag (snd (read_role E u filename role)) = tag"
  using assms by (cases tag) (auto simp: read_role_def Let_def split: option.splits if_splits)

lemma getCurrentRole_tag:
  assumes "kernel_roles E u"
  shows "getTag (snd (getCurrentRoleHelper E u name connected tag)) = tag"
proof -
  have "file_word E u name ''/power_role'' \<notin> {Some ''host'', Some ''device''}"
    "file_word E u name ''/data_role'' \<notin> {Some ''source'', Some ''sink''}"
    using assms unfolding kernel_roles_def by blast+
  note w = this [unfolded file_word_def]
  show ?thesis
    using read_role_tag [OF w(1), of "powerRole PowerNone" PowerTag] read_role_tag [OF w(2), of "dataRole DataNone" DataTag]
      read_role_tag [OF w(2), of "mode ModeNone" ModeTag]
    by (cases tag) (simp_all add: getCurrentRoleHelper_def Let_def case_prod_unfold)
qed

lemma get_role_tags:
  "getTag r = PowerTag \<Longrightarrow> \<exists>x. get_powerRole r = Some x" "getTag r = DataTag \<Longrightarrow> \<exists>x. get_dataRole r = Some x"
  "getTag r = ModeTag \<Longrightarrow> \<exists>x. get_mode r = Some x"
  by (cases r; simp)+

lemma port_status_typed:
  assumes "kernel_roles E u"
  shows "\<exists>ok p. port_status E u (name, connected) = Ret (ok, p) \<and> portName p = name
    \<and> (ok \<longrightarrow> last (usbDataStatus p) = (if mUsbDataEnabled u then ENABLED else DISABLED_FORCE))"
proof -
  let ?h = "getCurrentRoleHelper E u name connected"
  obtain pr dr md where "get_powerRole (snd (?h PowerTag)) = Some pr" "get_dataRole (snd (?h DataTag)) = Some dr"
      "get_mode (snd (?h ModeTag)) = Some md"
    using get_role_tags getCurrentRole_tag [OF assms] by metis
  then show ?thesis by (auto simp: port_status_def Let_def case_prod_unfold defined_or_def)
qed

lemma port_loop_typed:
  assumes "kernel_roles E u"
  shows "\<exists>st ports. port_loop E u names = Ret (st, ports) \<and> length ports = length names
    \<and> (st = USB_SUCCESS \<longrightarrow> map portName ports = map fst names
         \<and> list_all (\<lambda>p. last (usbDataStatus p) = (if mUsbDataEnabled u then ENABLED else DISABLED_FORCE)) ports)"
proof (induction names)
  case (Cons port names)
  obtain name connected where port: "port = (name, connected)" by (cases port)
  obtain ok p where "port_status E u (name, connected) = Ret (ok, p)" "portName p = name"
      "ok \<longrightarrow> last (usbDataStatus p) = (if mUsbDataEnabled u then ENABLED else DISABLED_FORCE)"
    using port_status_typed [OF assms] by blast
  with Cons show ?case by (cases ok) (auto simp: port)
qed simp

section \<open>Uevents\<close>

lemma msg_fields_not_Nil [simp]: "msg_fields s \<noteq> []"
  by (cases s) auto

lemma msg_fields_split:
  "msg_fields s = takeWhile (\<lambda>c. c \<noteq> NUL) s # (if NUL \<in> set s then msg_fields (drop (Suc (length (takeWhile (\<lambda>c. c \<noteq> NUL) s))) s) else [])"
  by (induction s) auto

lemma uevent_loop_end: "uevent_loop E [NUL] u = Ret u"
  by (subst uevent_loop.simps) simp

lemma takeWhile_app_no: "NUL \<notin> set s \<Longrightarrow> takeWhile (\<lambda>c. c \<noteq> NUL) (s @ NUL # rest) = s"
  by (induction s) auto

lemma takeWhile_app_yes:
  assumes "NUL \<in> set s"
  shows "takeWhile (\<lambda>c. c \<noteq> NUL) (s @ rest) = takeWhile (\<lambda>c. c \<noteq> NUL) s
    \<and> length (takeWhile (\<lambda>c. c \<noteq> NUL) s) < length s"
  using assms by (induction s) auto

text \<open>The loop on the buffer is the loop on the fields: it never leaves the buffer.\<close>

lemma uevent_loop_fields:
  "uevent_loop E (s @ [NUL, NUL]) u = handle_fields E (takeWhile (\<lambda>f. f \<noteq> []) (msg_fields s)) u"
proof (induction "length s" arbitrary: s u rule: less_induct)
  case less
  let ?cp = "takeWhile (\<lambda>c. c \<noteq> NUL) s"
  show ?case
  proof (cases "NUL \<in> set s")
    case True
    let ?rest = "drop (Suc (length ?cp)) s"
    note t = takeWhile_app_yes [OF True]
    have IH: "uevent_loop E (?rest @ [NUL, NUL]) v = handle_fields E (takeWhile (\<lambda>f. f \<noteq> []) (msg_fields ?rest)) v" for v
      using True by (intro less) (auto dest: length_pos_if_in_set)
    have f: "msg_fields s = ?cp # msg_fields ?rest" using True by (subst msg_fields_split) simp
    have "length ?cp < length s" using t [of "[]"] by simp
    then have "drop (Suc (length ?cp)) (s @ [NUL, NUL]) = ?rest @ [NUL, NUL]" by simp
    with t IH show ?thesis by (subst uevent_loop.simps) (simp add: f Let_def)
  next
    case False
    have "takeWhile (\<lambda>c. c \<noteq> NUL) s = s" using False by (auto simp: takeWhile_eq_all_conv)
    then have f: "msg_fields s = [s]" using False by (subst msg_fields_split) simp
    have "takeWhile (\<lambda>c. c \<noteq> NUL) (s @ [NUL, NUL]) = s" using takeWhile_app_no [OF False] by simp
    then show ?thesis by (subst uevent_loop.simps) (simp add: f Let_def uevent_loop_end)
  qed
qed

section \<open>Waiting for the partner\<close>

lemma wait_again_done: "fst (wake k) \<or> snd (wake k) \<Longrightarrow> wait_again wake k = Some (\<not> fst (wake k), snd (wake k))"
  by (subst wait_again.simps) (auto simp: case_prod_unfold Let_def)

lemma wait_again_more: "wake k = (False, False) \<Longrightarrow> wait_again wake k = wait_again wake (Suc k)"
  by (subst wait_again.simps) simp

lemma wait_again_skip: "\<forall>m < n. wake m = (False, False) \<Longrightarrow> wait_again wake 0 = wait_again wake n"
  by (induction n) (auto simp: wait_again_more)

lemma wait_again_first:
  assumes "fst (wake m) \<or> snd (wake m)" and "n = (LEAST n. fst (wake n) \<or> snd (wake n))"
  shows "wait_again wake 0 = Some (\<not> fst (wake n), snd (wake n))"
proof -
  have n: "fst (wake n) \<or> snd (wake n)" unfolding assms(2) using assms(1) by (rule LeastI)
  have "\<forall>k < n. wake k = (False, False)"
    unfolding assms(2) by (auto dest!: not_less_Least simp: prod_eq_iff)
  from wait_again_skip [OF this] wait_again_done [of wake n] n show ?thesis by simp
qed

section \<open>The thread\<close>

inductive_simps poll_step_iff: "poll_step s t"

interpretation poll: invariant_of "\<lambda>s. s = poll_start" poll_step poll_inv
  by unfold_locales (auto simp: poll_inv_def poll_start_def poll_step_iff split: if_splits)

lemma poll_progress:
  assumes inv: "poll_inv s" and "\<not> poll_done s" "\<not> poll_deadlocked s"
  shows "\<exists>t. poll_step s t"
proof (cases "poll_thread s")
  case AtCheck then show ?thesis using poll_step.leave poll_step.stay by blast
next
  case BeforeWait then show ?thesis using poll_step.enter by blast
next
  case InWait then show ?thesis using poll_step.other_event by blast
next
  case WantsLock
  with assms(3) show ?thesis using poll_step.lock by (auto simp: poll_deadlocked_def)
next
  case HasLock then show ?thesis using poll_step.unlock by blast
next
  case Exited
  with inv assms(2) have "caller s = Joining" by (cases "caller s") (auto simp: poll_inv_def poll_done_def)
  with Exited show ?thesis using poll_step.join by blast
qed

lemma poll_stuck: "poll_done s \<or> poll_deadlocked s \<Longrightarrow> \<not> poll_step s t"
  by (auto simp: poll_step_iff poll_done_def poll_deadlocked_def)

lemma poll_deadlock_reachable:
  "reach (\<lambda>s. s = poll_start) poll_step \<lparr>poll_thread = WantsLock, caller = Joining, destroyThread = True\<rparr>"
proof -
  let ?s = "\<lambda>pc. \<lparr>poll_thread = pc, caller = NotCalled, destroyThread = False\<rparr>"
  have "reach (\<lambda>s. s = poll_start) poll_step (?s AtCheck)" by (rule reach_init) (simp add: poll_start_def)
  then have "reach (\<lambda>s. s = poll_start) poll_step (?s BeforeWait)"
    by (rule reach_step) (use poll_step.stay [of "?s AtCheck"] in simp)
  then have "reach (\<lambda>s. s = poll_start) poll_step (?s InWait)"
    by (rule reach_step) (use poll_step.enter [of "?s BeforeWait"] in simp)
  then have "reach (\<lambda>s. s = poll_start) poll_step (?s WantsLock)"
    by (rule reach_step) (use poll_step.port_event [of "?s InWait"] in simp)
  then show ?thesis by (rule reach_step) (use poll_step.signal [of "?s WantsLock"] in simp)
qed

section \<open>Switching roles\<close>

lemma usb_frame [simp]:
  "mCallback (uemit e u) = mCallback u" "mRoleSwitchLock (uemit e u) = mRoleSwitchLock u"
  "usb_effects (uemit e u) = usb_effects u @ [e]"
  by (simp_all add: uemit_def)

lemma uwrite_frame [simp]:
  "mCallback (snd (uwrite E v p u)) = mCallback u"
  "usb_effects (snd (uwrite E v p u)) = usb_effects u @ [FileWrite p v (fst (uwrite E v p u))]"
  by (simp_all add: uwrite_def Let_def)

lemma uwrite_lock: "uwrite E v p (u\<lparr>mRoleSwitchLock := b\<rparr>) = (fst (uwrite E v p u), (snd (uwrite E v p u))\<lparr>mRoleSwitchLock := b\<rparr>)"
  by (simp add: uwrite_def Let_def uemit_def)

lemma switchToDrp_frame:
  "mCallback (switchToDrp E name u) = mCallback u"
  "\<exists>r. usb_effects (switchToDrp E name u) = usb_effects u @ [FileWrite (appendRoleNodeHelper name ModeTag) ''dual'' r]"
  by (simp_all add: switchToDrp_def)

lemma switchMode_result:
  assumes "fst (wake m) \<or> snd (wake m)" and "getTag role = ModeTag"
  shows "\<exists>u'. switchMode E wake name role (u\<lparr>mRoleSwitchLock := b\<rparr>) = Some (role_taken E wake name role u, u') \<and> mCallback u' = mCallback u
    \<and> (role_taken E wake name role u \<or> (\<exists>es r. usb_effects u' = es @ [FileWrite (appendRoleNodeHelper name ModeTag) ''dual'' r]))"
  using wait_again_first [of wake m, OF assms(1) refl] switchToDrp_frame(2)
  by (cases "fst (uwrite E (convertRoletoString role) (appendRoleNodeHelper name (getTag role)) u)")
    (auto simp: switchMode_def Let_def case_prod_unfold uwrite_lock role_taken_def assms(2) switchToDrp_frame(1), blast+)

lemma write_role_result:
  assumes "getTag role \<noteq> ModeTag"
  shows "\<exists>u'. write_role E (appendRoleNodeHelper name (getTag role)) role (u\<lparr>mRoleSwitchLock := b\<rparr>) = (role_taken E wake name role u, u')
    \<and> mCallback u' = mCallback u"
  using assms
  by (auto simp: write_role_def Let_def case_prod_unfold uwrite_lock role_taken_def split: option.split)

section \<open>Properties\<close>

text \<open>
  C37: The port names come out the same whatever the order of the directory: each port that has
  an entry of its own or a partner's is listed once, and it counts as connected exactly if
  there is an entry for its partner.
\<close>
theorem port_names_spec:
  assumes "open_dir E (usb_effects u) kTypecPath = Some entries"
  shows "\<exists>names. getTypeCPortNamesHelper E u = Some names \<and> distinct (map fst names)
    \<and> (\<forall>p. map_of names p = (if has_partner entries p then Some True else if is_port entries p then Some False else None))"
  using port_names_map by (auto simp: getTypeCPortNamesHelper_def assms)

theorem port_names_spec_witness:
  "\<exists>names. getTypeCPortNamesHelper sample_usb_env Usb_new = Some names \<and> map_of names ''port0'' = Some True"
proof -
  have "is_partner ''port0-partner'' \<and> dash_token ''port0-partner'' = ''port0''" by code_simp
  then have "has_partner [(''port0-partner'', True), (''port0'', True), (''.'', False)] ''port0''"
    by (auto simp: has_partner_def)
  then show ?thesis
    using port_names_spec [of sample_usb_env Usb_new "[(''port0-partner'', True), (''port0'', True), (''.'', False)]"]
    by (auto simp: sample_usb_env_def)
qed

text \<open>
  C28: As long as the kernel puts power roles into the one file of a port and data roles into the
  other, reading the state of the ports never takes a role for one of the other kind, which
  would end the process; and where it succeeds it gives one status for each port, which says
  that data is enabled exactly if it is.
\<close>
theorem port_roles_typed:
  assumes "kernel_roles E u" and "getTypeCPortNamesHelper E u = Some names"
  shows "\<exists>st ports. getPortStatusHelper E u = Ret (st, ports) \<and> length ports = length names
    \<and> (st = USB_SUCCESS \<longrightarrow> map portName ports = map fst names
         \<and> list_all (\<lambda>p. last (usbDataStatus p) = (if mUsbDataEnabled u then ENABLED else DISABLED_FORCE)) ports)"
  using port_loop_typed [OF assms(1)] by (simp add: getPortStatusHelper_def assms(2))

lemma sample_kernel_roles: "kernel_roles sample_usb_env Usb_new"
proof -
  have "extractRole ''[source] sink'' = ''source''" "extractRole ''[host] device'' = ''host''" by code_simp+
  moreover have "suffix ''power_role'' (''/sys/class/typec/'' @ name @ ''/power_role'')"
      "suffix ''data_role'' (''/sys/class/typec/'' @ name @ ''/data_role'')" for name
    by (auto intro!: suffix_appendI simp: suffix_def)
  moreover have "\<not> suffix ''power_role'' (''/sys/class/typec/'' @ name @ ''/data_role'')" for name
    by (simp add: suffix_to_prefix)
  ultimately show ?thesis
    by (auto simp: kernel_roles_def file_word_def sample_usb_env_def)
qed

theorem port_roles_typed_witness:
  "\<exists>ports. getPortStatusHelper sample_usb_env Usb_new = Ret (USB_SUCCESS, ports) \<and> map portName ports = [''port0'']"
proof -
  have n: "getTypeCPortNamesHelper sample_usb_env Usb_new = Some [(''port0'', True)]" by code_simp
  have "case getPortStatusHelper sample_usb_env Usb_new of Ret (st, _) \<Rightarrow> st = USB_SUCCESS | _ \<Rightarrow> False" by code_simp
  then show ?thesis using port_roles_typed [OF sample_kernel_roles n] by auto
qed


text \<open>
  C9: If the wait for the partner ever times out or sees the partner, a role switch returns, with
  the lock for role switches free again, and the last thing it does is to tell the client
  whether the role was taken. A switch of the mode that failed puts the port back into dual
  role first.
\<close>
theorem role_switch_reported:
  assumes "mCallback u" and "fst (wake m) \<or> snd (wake m)"
  shows "\<exists>u' before. switchRole E wake name role txn u = Some u' \<and> \<not> mRoleSwitchLock u'
    \<and> usb_effects u' = before @ [NotifyRoleSwitch name role (status_of (role_taken E wake name role u)) txn]
    \<and> (getTag role = ModeTag \<and> \<not> role_taken E wake name role u \<longrightarrow>
        (\<exists>r. last before = FileWrite (appendRoleNodeHelper name ModeTag) ''dual'' r))"
proof (cases "getTag role = ModeTag")
  case True
  from switchMode_result [of wake m role, OF assms(2) True] obtain u' where u':
    "switchMode E wake name role (u\<lparr>mRoleSwitchLock := True\<rparr>) = Some (role_taken E wake name role u, u')"
    "mCallback u' = mCallback u"
    "role_taken E wake name role u \<or> (\<exists>es r. usb_effects u' = es @ [FileWrite (appendRoleNodeHelper name ModeTag) ''dual'' r])"
    by blast
  then show ?thesis using True assms(1) by (auto simp: switchRole_def notify_def)
next
  case False
  from write_role_result [OF False] obtain u' where
    "write_role E (appendRoleNodeHelper name (getTag role)) role (u\<lparr>mRoleSwitchLock := True\<rparr>) = (role_taken E wake name role u, u')"
    "mCallback u' = mCallback u"
    by blast
  then show ?thesis using False assms(1) by (auto simp: switchRole_def notify_def)
qed

theorem role_switch_reported_witness:
  "\<exists>u'. switchRole sample_usb_env (\<lambda>n. (n = 2, False)) ''port0'' (mode DFP) 7 (Usb_new\<lparr>mCallback := True\<rparr>) = Some u'
    \<and> last (usb_effects u') = NotifyRoleSwitch ''port0'' (mode DFP) USB_ERROR 7"
proof -
  let ?wake = "\<lambda>n::nat. (n = 2, False)"
  have "(LEAST n. fst (?wake n) \<or> snd (?wake n)) = 2" by (rule Least_equality) auto
  then have "\<not> role_taken sample_usb_env ?wake ''port0'' (mode DFP) (Usb_new\<lparr>mCallback := True\<rparr>)"
    by (simp add: role_taken_def Let_def case_prod_unfold)
  with role_switch_reported [of "Usb_new\<lparr>mCallback := True\<rparr>" ?wake 2 sample_usb_env "''port0''" "mode DFP" 7]
  show ?thesis by (auto simp: status_of_def)
qed



text \<open>
  Where there is no port, or the directory of the ports cannot be read, the first element of an
  empty vector is written as soon as the file of the power limit can be read.
\<close>
theorem query_without_ports:
  assumes "getTypeCPortNamesHelper E u \<in> {None, Some []}"
    and "read_file E (usb_effects u) (USB_POWER_LIMIT_PATH @ ''usb_limit_sink_enable'') \<noteq> None"
  shows "queryVersionHelper E u = Undefined"
  using assms
  by (auto simp: queryVersionHelper_def getPortStatusHelper_def queryPowerTransferStatus_def queryMoistureDetectionStatus_def Let_def)

text \<open>A data role file that holds a power role ends the process.\<close>
theorem mixed_role_aborts:
  assumes "file_word E u name ''/power_role'' = Some ''none''" and "file_word E u name ''/data_role'' = Some ''source''"
  shows "port_status E u (name, True) = Abort"
  using assms
  by (auto simp: port_status_def getCurrentRoleHelper_def read_role_def file_word_def Let_def defined_or_def)

end
